theory Spec2Isabelle
  imports Main "HOL-Library.Product_Lexorder"
begin

section \<open>Errors\<close>

text \<open>
  The exceptions that the core of \<^verbatim>\<open>hw01.py\<close> and the library calls it makes can raise.
  A \<^verbatim>\<open>ValueError\<close> carries its message: the source tells its failures apart only by
  the message text. The messages of errors raised inside the date library are those of
  CPython; no statement below depends on their wording.
\<close>

datatype error = ValueError string | OverflowError string

section \<open>Calendar dates (the \<^verbatim>\<open>date\<close> type of the datetime library)\<close>

record date =
  year :: nat
  month :: nat
  day :: nat

definition is_leap :: "nat \<Rightarrow> bool" where
  "is_leap y = (y mod 4 = 0 \<and> (y mod 100 \<noteq> 0 \<or> y mod 400 = 0))"

definition days_in_month :: "nat \<Rightarrow> nat \<Rightarrow> nat" where
  "days_in_month y m =
     (if m = 2 then (if is_leap y then 29 else 28)
      else if m = 4 \<or> m = 6 \<or> m = 9 \<or> m = 11 then 30 else 31)"

text \<open>Every \<^verbatim>\<open>date\<close> object satisfies this: the constructor enforces it.\<close>

definition valid_date :: "date \<Rightarrow> bool" where
  "valid_date d =
     (1 \<le> year d \<and> year d \<le> 9999 \<and> 1 \<le> month d \<and> month d \<le> 12 \<and>
      1 \<le> day d \<and> day d \<le> days_in_month (year d) (month d))"

text \<open>\<^verbatim>\<open>date(y, m, d)\<close>: the checks of the constructor, in its order.\<close>

definition make_date :: "nat \<Rightarrow> nat \<Rightarrow> nat \<Rightarrow> error + date" where
  "make_date y m d =
     (if \<not> (1 \<le> y \<and> y \<le> 9999) then Inl (ValueError ''year is out of range'')
      else if \<not> (1 \<le> m \<and> m \<le> 12) then Inl (ValueError ''month must be in 1..12'')
      else if \<not> (1 \<le> d \<and> d \<le> days_in_month y m)
        then Inl (ValueError ''day is out of range for month'')
      else Inr \<lparr>year = y, month = m, day = d\<rparr>)"

text \<open>\<^verbatim>\<open>d.replace(year=y)\<close> builds a new date from the changed fields.\<close>

definition replace_year :: "date \<Rightarrow> nat \<Rightarrow> error + date" where
  "replace_year d y = make_date y (month d) (day d)"

text \<open>Dates compare as the tuples (year, month, day).\<close>

definition date_key :: "date \<Rightarrow> nat \<times> nat \<times> nat" where
  "date_key d = (year d, month d, day d)"

definition date_le :: "date \<Rightarrow> date \<Rightarrow> bool" where
  "date_le a b = (date_key a \<le> date_key b)"

definition date_lt :: "date \<Rightarrow> date \<Rightarrow> bool" where
  "date_lt a b = (date_key a < date_key b)"

text \<open>
  \<^verbatim>\<open>d + timedelta(days=n)\<close> for \<open>n \<ge> 0\<close>: the date \<open>n\<close> days later, or
  \<^verbatim>\<open>OverflowError\<close> past 9999-12-31.
\<close>

definition next_day :: "date \<Rightarrow> date" where
  "next_day d =
     (if day d < days_in_month (year d) (month d) then d\<lparr>day := day d + 1\<rparr>
      else if month d < 12 then d\<lparr>month := month d + 1, day := 1\<rparr>
      else \<lparr>year = year d + 1, month = 1, day = 1\<rparr>)"

fun days_later :: "nat \<Rightarrow> date \<Rightarrow> date" where
  "days_later 0 d = d"
| "days_later (Suc n) d = days_later n (next_day d)"

definition add_days :: "date \<Rightarrow> nat \<Rightarrow> error + date" where
  "add_days d n =
     (let r = days_later n d
      in if year r \<le> 9999 then Inr r else Inl (OverflowError ''date value out of range''))"

section \<open>The birthday window test\<close>

text \<open>
  The value of the local variable \<^verbatim>\<open>adjusted_birthday\<close> of \<^verbatim>\<open>is_valid_date\<close> when
  the final comparison is reached (lines 23 to 25), or the \<^verbatim>\<open>ValueError\<close> of a
  \<^verbatim>\<open>replace\<close> that fails.
\<close>

definition adjusted_birthday :: "date \<Rightarrow> date \<Rightarrow> date \<Rightarrow> error + date" where
  "adjusted_birthday birthday start end' =
     (case replace_year birthday (year start) of
        Inl e \<Rightarrow> Inl e
      | Inr adjusted \<Rightarrow>
          if date_lt adjusted start \<and> year adjusted \<noteq> year end'
          then replace_year adjusted (year end')
          else Inr adjusted)"

definition is_valid_date :: "date \<Rightarrow> date \<Rightarrow> date \<Rightarrow> error + bool" where
  "is_valid_date birthday start end' =
     (case adjusted_birthday birthday start end' of
        Inl e \<Rightarrow> Inl e
      | Inr adjusted \<Rightarrow>
          if date_le start adjusted \<and> date_le adjusted end' then Inr True else Inr False)"

text \<open>
  The window test as the specification words it: \<open>adjusted\<close> is the birthday with the
  year of \<open>today\<close>, moved to the year of \<open>end\<close> when it lies before \<open>today\<close> and the
  two years differ.
\<close>

definition spec_adjusted :: "date \<Rightarrow> date \<Rightarrow> date \<Rightarrow> date" where
  "spec_adjusted B today end' =
     (if date_lt (B\<lparr>year := year today\<rparr>) today \<and> year today \<noteq> year end'
      then B\<lparr>year := year end'\<rparr> else B\<lparr>year := year today\<rparr>)"

definition spec_in_window :: "date \<Rightarrow> date \<Rightarrow> date \<Rightarrow> bool" where
  "spec_in_window B today end' =
     (date_le today (spec_adjusted B today end') \<and> date_le (spec_adjusted B today end') end')"

text \<open>
  The case the specification leaves open: the birthday is February 29 and the year it is
  moved to (the year of \<open>spec_adjusted\<close>, and before that the year of \<open>today\<close>) is not
  a leap year.
\<close>

definition feb29_in_common_year :: "date \<Rightarrow> nat \<Rightarrow> bool" where
  "feb29_in_common_year B y = (month B = 2 \<and> day B = 29 \<and> \<not> is_leap y)"

definition feb29_open_case :: "date \<Rightarrow> date \<Rightarrow> date \<Rightarrow> bool" where
  "feb29_open_case B today end' =
     (feb29_in_common_year B (year today) \<or>
      feb29_in_common_year B (year (spec_adjusted B today end')))"

section \<open>Strings and the two regular expressions\<close>

text \<open>
  A Python string is a sequence of Unicode code points, here natural numbers; \<open>ustr\<close>
  writes an ASCII literal as such a sequence. The messages of exceptions are fixed ASCII
  literals of the source and stay plain strings.
\<close>

type_synonym py_str = "nat list"

definition ustr :: "string \<Rightarrow> py_str" where
  "ustr s = map (of_char :: char \<Rightarrow> nat) s"

text \<open>
  The decimal digits of Unicode (category Nd), which \<^verbatim>\<open>\d\<close> matches in a string
  pattern and which \<^verbatim>\<open>int\<close> converts. They come in runs of ten consecutive code
  points with the values 0 to 9; the list holds the first code point of every run in
  Unicode 14.0, the database of CPython 3.11. The first run is \<^verbatim>\<open>0\<close> to \<^verbatim>\<open>9\<close>, the
  second the Arabic-Indic digits from U+0660. Later versions of the database add runs;
  the statements below use only these two runs and that every run lies above the blank
  and the dot.
\<close>

definition decimal_blocks :: "nat list" where
  "decimal_blocks =
     [48, 1632, 1776, 1984, 2406, 2534, 2662, 2790,
      2918, 3046, 3174, 3302, 3430, 3558, 3664, 3792,
      3872, 4160, 4240, 6112, 6160, 6470, 6608, 6784,
      6800, 6992, 7088, 7232, 7248, 42528, 43216, 43264,
      43472, 43504, 43600, 44016, 65296, 66720, 68912, 69734,
      69872, 69942, 70096, 70384, 70736, 70864, 71248, 71360,
      71472, 71904, 72016, 72784, 73040, 73120, 92768, 92864,
      93008, 120782, 120792, 120802, 120812, 120822, 123200, 123632,
      125264, 130032]"

definition is_decimal :: "nat \<Rightarrow> bool" where
  "is_decimal c = list_ex (\<lambda>b. b \<le> c \<and> c < b + 10) decimal_blocks"

definition digit_val :: "nat \<Rightarrow> nat" where
  "digit_val c =
     (case List.find (\<lambda>b. b \<le> c \<and> c < b + 10) decimal_blocks of
        None \<Rightarrow> 0
      | Some b \<Rightarrow> c - b)"

text \<open>The tests of a literal character and of a bracket class such as \<^verbatim>\<open>[1-9]\<close>.\<close>

definition is_char :: "char \<Rightarrow> nat \<Rightarrow> bool" where
  "is_char ch c = (c = of_char ch)"

definition in_range :: "char \<Rightarrow> char \<Rightarrow> nat \<Rightarrow> bool" where
  "in_range lo hi c = (of_char lo \<le> c \<and> c \<le> of_char hi)"

text \<open>
  A backtracking matcher maps the input to all the ways its pattern matches a prefix of
  it, in the order in which the regex engine tries them, each as the matched text and the
  rest of the input.
\<close>

type_synonym matcher = "py_str \<Rightarrow> (py_str \<times> py_str) list"

definition re_char :: "(nat \<Rightarrow> bool) \<Rightarrow> matcher" where
  "re_char P s = (case s of [] \<Rightarrow> [] | c # r \<Rightarrow> if P c then [([c], r)] else [])"

definition re_seq :: "matcher \<Rightarrow> matcher \<Rightarrow> matcher" where
  "re_seq p q s = concat (map (\<lambda>(a, r). map (\<lambda>(b, r'). (a @ b, r')) (q r)) (p s))"

definition re_alt :: "matcher \<Rightarrow> matcher \<Rightarrow> matcher" where
  "re_alt p q s = p s @ q s"

fun re_rep :: "nat \<Rightarrow> matcher \<Rightarrow> matcher" where
  "re_rep 0 p = (\<lambda>s. [([], s)])"
| "re_rep (Suc n) p = re_seq p (re_rep n p)"

text \<open>\<^verbatim>\<open>bool(re.fullmatch(p, s))\<close>: some way of matching consumes the whole input.\<close>

definition fullmatch :: "matcher \<Rightarrow> py_str \<Rightarrow> bool" where
  "fullmatch p s = list_ex (\<lambda>(a, r). r = []) (p s)"

section \<open>Fields\<close>

text \<open>\<^verbatim>\<open>Name\<close> inherits the constructor of \<^verbatim>\<open>Field\<close>, which stores any value.\<close>

definition Name :: "py_str \<Rightarrow> error + py_str" where
  "Name v = Inr v"

text \<open>\<^verbatim>\<open>Phone.validate\<close>: the pattern is \<^verbatim>\<open>\d{10}\<close>.\<close>

definition validate :: "py_str \<Rightarrow> bool" where
  "validate phone = fullmatch (re_rep 10 (re_char is_decimal)) phone"

definition Phone :: "py_str \<Rightarrow> error + py_str" where
  "Phone v =
     (if \<not> validate v then Inl (ValueError ''Phone must contain exactly 10 digits.'')
      else Inr v)"

text \<open>
  \<^verbatim>\<open>datetime.strptime(value, "%d.%m.%Y")\<close>. The library turns the format into the
  regular expression
  \<^verbatim>\<open>(?P<d>3[0-1]|[1-2]\d|0[1-9]|[1-9]| [1-9])\.(?P<m>1[0-2]|0[1-9]|[1-9])\.(?P<Y>\d\d\d\d)\<close>,
  takes its first match at the start of the input, raises \<^verbatim>\<open>ValueError\<close> when there is
  none or when input remains after it, converts the three groups with \<^verbatim>\<open>int\<close> and
  builds the date, which raises \<^verbatim>\<open>ValueError\<close> for an impossible one.
\<close>

definition re_d :: matcher where
  "re_d =
     re_alt (re_seq (re_char (is_char (CHR ''3''))) (re_char (in_range (CHR ''0'') (CHR ''1''))))
    (re_alt (re_seq (re_char (in_range (CHR ''1'') (CHR ''2''))) (re_char is_decimal))
    (re_alt (re_seq (re_char (is_char (CHR ''0''))) (re_char (in_range (CHR ''1'') (CHR ''9''))))
    (re_alt (re_char (in_range (CHR ''1'') (CHR ''9'')))
            (re_seq (re_char (is_char (CHR '' ''))) (re_char (in_range (CHR ''1'') (CHR ''9'')))))))"

definition re_m :: matcher where
  "re_m =
     re_alt (re_seq (re_char (is_char (CHR ''1''))) (re_char (in_range (CHR ''0'') (CHR ''2''))))
    (re_alt (re_seq (re_char (is_char (CHR ''0''))) (re_char (in_range (CHR ''1'') (CHR ''9''))))
            (re_char (in_range (CHR ''1'') (CHR ''9''))))"

definition re_Y :: matcher where
  "re_Y = re_rep 4 (re_char is_decimal)"

definition re_dot :: matcher where
  "re_dot = re_char (is_char (CHR ''.''))"

text \<open>
  Continuing each match of one part with the matches of what follows it, in order.
\<close>

definition and_then :: "('a \<times> py_str) list \<Rightarrow> ('a \<Rightarrow> py_str \<Rightarrow> 'b list) \<Rightarrow> 'b list" where
  "and_then ms f = concat (map (\<lambda>(a, r). f a r) ms)"

text \<open>All matches of the whole expression, as the groups d, m, Y and the rest of the input.\<close>

definition format_regex_matches :: "py_str \<Rightarrow> (py_str \<times> py_str \<times> py_str \<times> py_str) list" where
  "format_regex_matches s =
     and_then (re_d s) (\<lambda>D r1.
     and_then (re_dot r1) (\<lambda>x r2.
     and_then (re_m r2) (\<lambda>M r3.
     and_then (re_dot r3) (\<lambda>y r4.
     and_then (re_Y r4) (\<lambda>Y r5. [(D, M, Y, r5)])))))"

text \<open>
  \<^verbatim>\<open>int(text)\<close> on the text of a group: blanks around the number are dropped, the
  rest must be decimal digits of any script, and each digit counts with its value. (The
  signs and underscores that \<^verbatim>\<open>int\<close> also accepts occur in no group.)
\<close>

definition strip :: "py_str \<Rightarrow> py_str" where
  "strip s = rev (dropWhile (is_char (CHR '' '')) (rev (dropWhile (is_char (CHR '' '')) s)))"

definition decimal_value :: "py_str \<Rightarrow> nat" where
  "decimal_value t = foldl (\<lambda>n c. 10 * n + digit_val c) 0 t"

definition py_int :: "py_str \<Rightarrow> error + nat" where
  "py_int s =
     (let t = strip s
      in if t = [] \<or> \<not> list_all is_decimal t then Inl (ValueError ''invalid literal for int()'')
         else Inr (decimal_value t))"

definition strptime :: "py_str \<Rightarrow> error + date" where
  "strptime s =
     (case format_regex_matches s of
        [] \<Rightarrow> Inl (ValueError ''time data does not match format'')
      | (D, M, Y, rest) # other \<Rightarrow>
          if rest \<noteq> [] then Inl (ValueError ''unconverted data remains'')
          else (case py_int Y of Inl e \<Rightarrow> Inl e | Inr y \<Rightarrow>
               (case py_int M of Inl e \<Rightarrow> Inl e | Inr m \<Rightarrow>
               (case py_int D of Inl e \<Rightarrow> Inl e | Inr d \<Rightarrow> make_date y m d))))"

text \<open>\<^verbatim>\<open>Birthday(value)\<close>: every \<^verbatim>\<open>ValueError\<close> of the parse is replaced by the class's own.\<close>

definition Birthday :: "py_str \<Rightarrow> error + date" where
  "Birthday v =
     (case strptime v of
        Inl (ValueError m) \<Rightarrow> Inl (ValueError ''Invalid date format. Use DD.MM.YYYY'')
      | Inl (OverflowError m) \<Rightarrow> Inl (OverflowError m)
      | Inr birthday \<Rightarrow> Inr birthday)"

text \<open>
  \<^verbatim>\<open>d.strftime("%d.%m.%Y")\<close> hands the format to the \<^verbatim>\<open>strftime\<close> of the platform's C
  library. Day and month come zero-padded to two digits everywhere. The year depends on
  the library: some pad it with zeros to four digits, glibc prints it as a plain decimal
  number. The model takes the behaviour of the platform as a parameter.
\<close>

datatype year_format = Padded | Unpadded

definition digit_char :: "nat \<Rightarrow> nat" where
  "digit_char n = of_char (CHR ''0'') + n"

definition dec2 :: "nat \<Rightarrow> py_str" where
  "dec2 n = [digit_char (n div 10 mod 10), digit_char (n mod 10)]"

definition dec4 :: "nat \<Rightarrow> py_str" where
  "dec4 n = [digit_char (n div 1000 mod 10), digit_char (n div 100 mod 10),
             digit_char (n div 10 mod 10), digit_char (n mod 10)]"

fun decimal :: "nat \<Rightarrow> py_str" where
  "decimal n = (if n < 10 then [digit_char n] else decimal (n div 10) @ [digit_char (n mod 10)])"

declare decimal.simps [simp del]

definition strftime :: "year_format \<Rightarrow> date \<Rightarrow> py_str" where
  "strftime fmt d =
     dec2 (day d) @ ustr ''.'' @ dec2 (month d) @ ustr ''.'' @
     (case fmt of Padded \<Rightarrow> dec4 (year d) | Unpadded \<Rightarrow> decimal (year d))"

section \<open>Record\<close>

text \<open>
  A contact. A \<^verbatim>\<open>Phone\<close> object of the list is identified by its position: the methods
  put a fresh object into the list for every number, so no object occurs twice. Each
  method returns what the call signals together with the record after the call.
\<close>

record Record =
  name :: py_str
  phones :: "py_str list"
  birthday :: "date option"

definition Record_init :: "py_str \<Rightarrow> error + Record" where
  "Record_init n =
     (case Name n of
        Inl e \<Rightarrow> Inl e
      | Inr v \<Rightarrow> Inr \<lparr>name = v, phones = [], birthday = None\<rparr>)"

definition add_phone :: "Record \<Rightarrow> py_str \<Rightarrow> (error + unit) \<times> Record" where
  "add_phone r phone =
     (case Phone phone of
        Inl e \<Rightarrow> (Inl e, r)
      | Inr phone_obj \<Rightarrow> (Inr (), r\<lparr>phones := phones r @ [phone_obj]\<rparr>))"

text \<open>The loop of \<^verbatim>\<open>find_phone\<close>: the position of the first entry with the value.\<close>

fun first_with_value :: "py_str list \<Rightarrow> py_str \<Rightarrow> nat option" where
  "first_with_value [] phone = None"
| "first_with_value (p # ps) phone =
     (if p = phone then Some 0 else map_option Suc (first_with_value ps phone))"

definition find_phone :: "Record \<Rightarrow> py_str \<Rightarrow> nat option" where
  "find_phone r phone = first_with_value (phones r) phone"

definition remove_phone :: "Record \<Rightarrow> py_str \<Rightarrow> (error + unit) \<times> Record" where
  "remove_phone r phone =
     (case find_phone r phone of
        None \<Rightarrow> (Inr (), r)
      | Some i \<Rightarrow> (Inr (), r\<lparr>phones := take i (phones r) @ drop (Suc i) (phones r)\<rparr>))"

definition edit_phone :: "Record \<Rightarrow> py_str \<Rightarrow> py_str \<Rightarrow> (error + unit) \<times> Record" where
  "edit_phone r old_phone new_phone =
     (case find_phone r old_phone of
        None \<Rightarrow> (Inl (ValueError ''Phone not found''), r)
      | Some i \<Rightarrow>
          if \<not> validate new_phone
          then (Inl (ValueError ''New phone must contain exactly 10 digits.''), r)
          else (Inr (), r\<lparr>phones := (phones r)[i := new_phone]\<rparr>))"

definition add_birthday :: "Record \<Rightarrow> py_str \<Rightarrow> (error + unit) \<times> Record" where
  "add_birthday r text =
     (case Birthday text of
        Inl e \<Rightarrow> (Inl e, r)
      | Inr b \<Rightarrow> (Inr (), r\<lparr>birthday := Some b\<rparr>))"

text \<open>
  The error kinds of the specification, for the \<^verbatim>\<open>ValueError\<close>s that the record's
  methods raise themselves.
\<close>

datatype error_kind = InvalidFormat | NotFound

definition error_kind :: "error \<Rightarrow> error_kind option" where
  "error_kind e =
     (if e = ValueError ''Phone not found'' then Some NotFound
      else if e = ValueError ''Phone must contain exactly 10 digits.''
            \<or> e = ValueError ''New phone must contain exactly 10 digits.''
            \<or> e = ValueError ''Invalid date format. Use DD.MM.YYYY'' then Some InvalidFormat
      else None)"

section \<open>AddressBook\<close>

text \<open>
  The dictionary \<^verbatim>\<open>self.data\<close> keeps its keys in insertion order; assigning to a key
  that is present replaces the value where it stands.
\<close>

type_synonym AddressBook = "(py_str \<times> Record) list"

fun dict_set :: "('k \<times> 'v) list \<Rightarrow> 'k \<Rightarrow> 'v \<Rightarrow> ('k \<times> 'v) list" where
  "dict_set [] k v = [(k, v)]"
| "dict_set ((k', v') # kvs) k v =
     (if k' = k then (k', v) # kvs else (k', v') # dict_set kvs k v)"

definition add_record :: "AddressBook \<Rightarrow> Record \<Rightarrow> AddressBook" where
  "add_record book record = dict_set book (name record) record"

definition find :: "AddressBook \<Rightarrow> py_str \<Rightarrow> Record option" where
  "find book n = map_of book n"

definition delete :: "AddressBook \<Rightarrow> py_str \<Rightarrow> AddressBook" where
  "delete book n = (if n \<in> set (map fst book) then filter (\<lambda>kv. fst kv \<noteq> n) book else book)"

text \<open>
  The loop of \<^verbatim>\<open>birthdays\<close> over \<^verbatim>\<open>self.data.values()\<close>; an exception of the window
  test ends it.
\<close>

fun birthdays_loop ::
  "Record list \<Rightarrow> date \<Rightarrow> date \<Rightarrow> (py_str \<times> date) list \<Rightarrow> error + (py_str \<times> date) list" where
  "birthdays_loop [] today future_date result = Inr result"
| "birthdays_loop (r # rs) today future_date result =
     (case birthday r of
        None \<Rightarrow> birthdays_loop rs today future_date result
      | Some b \<Rightarrow>
          (case is_valid_date b today future_date of
             Inl e \<Rightarrow> Inl e
           | Inr ok \<Rightarrow>
               birthdays_loop rs today future_date
                 (if ok then result @ [(name r, b)] else result)))"

text \<open>
  \<^verbatim>\<open>birthdays\<close>, with the date that \<^verbatim>\<open>datetime.now().date()\<close> reads as a parameter.
  The result is what the call returns or raises, and the directory after the call.
  \<^verbatim>\<open>list.sort\<close> is stable, as \<^const>\<open>sort_key\<close> is.
\<close>

definition birthdays ::
  "AddressBook \<Rightarrow> date \<Rightarrow> (error + (py_str \<times> date) list) \<times> AddressBook" where
  "birthdays book today =
     (case add_days today 7 of
        Inl e \<Rightarrow> (Inl e, book)
      | Inr future_date \<Rightarrow>
          (case birthdays_loop (map snd book) today future_date [] of
             Inl e \<Rightarrow> (Inl e, book)
           | Inr result \<Rightarrow> (Inr (sort_key (\<lambda>item. date_key (snd item)) result), book)))"

section \<open>Notions of the specification\<close>

text \<open>
  A string of exactly ten digits, with the digits read as \<^verbatim>\<open>0\<close> to \<^verbatim>\<open>9\<close>, and with
  the digits read as the decimal digits of any script.
\<close>

definition ascii_digit :: "nat \<Rightarrow> bool" where
  "ascii_digit c = (c \<in> set (ustr ''0123456789''))"

definition ten_digits :: "py_str \<Rightarrow> bool" where
  "ten_digits p = (length p = 10 \<and> list_all ascii_digit p)"

definition ten_decimal_digits :: "py_str \<Rightarrow> bool" where
  "ten_decimal_digits p = (length p = 10 \<and> list_all is_decimal p)"

text \<open>
  A valid calendar date written as two-digit day, two-digit month and four-digit year,
  separated by dots, with the digits \<^verbatim>\<open>0\<close> to \<^verbatim>\<open>9\<close>.
\<close>

definition ascii_number :: "py_str \<Rightarrow> nat" where
  "ascii_number t = foldl (\<lambda>n c. 10 * n + (c - of_char (CHR ''0''))) 0 t"

definition ddmmyyyy :: "py_str \<Rightarrow> bool" where
  "ddmmyyyy s =
     (length s = 10 \<and> s ! 2 = of_char (CHR ''.'') \<and> s ! 5 = of_char (CHR ''.'') \<and>
      list_all ascii_digit (take 2 s) \<and> list_all ascii_digit (take 2 (drop 3 s)) \<and>
      list_all ascii_digit (drop 6 s) \<and>
      valid_date \<lparr>year = ascii_number (drop 6 s), month = ascii_number (take 2 (drop 3 s)),
                  day = ascii_number (take 2 s)\<rparr>)"

text \<open>
  The texts that the parser takes for a day, a month and a year, with the number each
  writes. A day is \<^verbatim>\<open>1\<close> to \<^verbatim>\<open>9\<close>, that digit after a zero or a blank, or
  \<^verbatim>\<open>10\<close> to \<^verbatim>\<open>31\<close>; from 10 to 29 the second digit may be a decimal digit of any
  script. A month is \<^verbatim>\<open>1\<close> to \<^verbatim>\<open>9\<close>, that digit after a zero, or \<^verbatim>\<open>10\<close> to
  \<^verbatim>\<open>12\<close>. A year is four decimal digits of any script.
\<close>

fun day_text :: "py_str \<Rightarrow> nat \<Rightarrow> bool" where
  "day_text [a] n = (a \<in> set (ustr ''123456789'') \<and> n = a - of_char (CHR ''0''))"
| "day_text [a, b] n =
     ((a \<in> set (ustr ''0 '') \<and> b \<in> set (ustr ''123456789'') \<and> n = b - of_char (CHR ''0''))
      \<or> (a \<in> set (ustr ''12'') \<and> is_decimal b \<and> n = 10 * (a - of_char (CHR ''0'')) + digit_val b)
      \<or> (a = of_char (CHR ''3'') \<and> b \<in> set (ustr ''01'') \<and> n = 30 + (b - of_char (CHR ''0''))))"
| "day_text D n = False"

fun month_text :: "py_str \<Rightarrow> nat \<Rightarrow> bool" where
  "month_text [a] n = (a \<in> set (ustr ''123456789'') \<and> n = a - of_char (CHR ''0''))"
| "month_text [a, b] n =
     ((a = of_char (CHR ''0'') \<and> b \<in> set (ustr ''123456789'') \<and> n = b - of_char (CHR ''0''))
      \<or> (a = of_char (CHR ''1'') \<and> b \<in> set (ustr ''012'') \<and> n = 10 + (b - of_char (CHR ''0''))))"
| "month_text M n = False"

fun year_text :: "py_str \<Rightarrow> nat \<Rightarrow> bool" where
  "year_text [a, b, c, d] n =
     (is_decimal a \<and> is_decimal b \<and> is_decimal c \<and> is_decimal d \<and>
      n = 1000 * digit_val a + 100 * digit_val b + 10 * digit_val c + digit_val d)"
| "year_text Y n = False"

text \<open>The three fields of a text with exactly two dots.\<close>

definition date_fields :: "py_str \<Rightarrow> (py_str \<times> py_str \<times> py_str) option" where
  "date_fields s =
     (case dropWhile (\<lambda>c. c \<noteq> of_char (CHR ''.'')) s of
        [] \<Rightarrow> None
      | dot # r \<Rightarrow>
          (case dropWhile (\<lambda>c. c \<noteq> of_char (CHR ''.'')) r of
             [] \<Rightarrow> None
           | dot' # Y \<Rightarrow>
               if of_char (CHR ''.'') \<in> set Y then None
               else Some (takeWhile (\<lambda>c. c \<noteq> of_char (CHR ''.'')) s,
                          takeWhile (\<lambda>c. c \<noteq> of_char (CHR ''.'')) r, Y)))"

definition accepted_text :: "py_str \<Rightarrow> date \<Rightarrow> bool" where
  "accepted_text s dt =
     (case date_fields s of
        None \<Rightarrow> False
      | Some (D, M, Y) \<Rightarrow>
          day_text D (day dt) \<and> month_text M (month dt) \<and> year_text Y (year dt) \<and> valid_date dt)"

text \<open>
  The entries of the directory that have a birthday in the window, in the order of the
  directory.
\<close>

definition window_entries :: "AddressBook \<Rightarrow> date \<Rightarrow> date \<Rightarrow> (py_str \<times> date) list" where
  "window_entries book today end' =
     concat (map (\<lambda>kv. case birthday (snd kv) of
                          None \<Rightarrow> []
                        | Some b \<Rightarrow> if is_valid_date b today end' = Inr True
                                    then [(name (snd kv), b)] else []) book)"

text \<open>The order that the specification states: ascending by the adjusted date.\<close>

definition ordered_by_adjusted :: "date \<Rightarrow> date \<Rightarrow> (py_str \<times> date) list \<Rightarrow> bool" where
  "ordered_by_adjusted today end' result =
     sorted (map (\<lambda>item. date_key (spec_adjusted (snd item) today end')) result)"

section \<open>Properties of the window test\<close>

lemma days_in_month_feb29:
  "d \<le> days_in_month y m \<Longrightarrow> \<not> (m = 2 \<and> d = 29 \<and> \<not> is_leap y') \<Longrightarrow> d \<le> days_in_month y' m"
  by (auto simp: days_in_month_def split: if_splits)

lemma replace_year_ok:
  assumes "valid_date B" and "1 \<le> y" and "y \<le> 9999" and "\<not> feb29_in_common_year B y"
  shows "replace_year B y = Inr (B\<lparr>year := y\<rparr>)"
proof -
  have "day B \<le> days_in_month y (month B)"
    using assms days_in_month_feb29 [of "day B" "year B" "month B" y]
    by (auto simp: valid_date_def feb29_in_common_year_def)
  then show ?thesis
    using assms by (simp add: replace_year_def make_date_def valid_date_def)
qed

lemma adjusted_birthday_spec:
  assumes "valid_date B" and "valid_date today" and "valid_date end'"
    and "\<not> feb29_open_case B today end'"
  shows "adjusted_birthday B today end' = Inr (spec_adjusted B today end')"
proof -
  have y1: "1 \<le> year today" "year today \<le> 9999" and y2: "1 \<le> year end'" "year end' \<le> 9999"
    using assms(2,3) by (simp_all add: valid_date_def)
  have f1: "\<not> feb29_in_common_year B (year today)"
    using assms(4) by (simp add: feb29_open_case_def)
  have r1: "replace_year B (year today) = Inr (B\<lparr>year := year today\<rparr>)"
    using replace_year_ok [OF assms(1) y1 f1] .
  show ?thesis
  proof (cases "date_lt (B\<lparr>year := year today\<rparr>) today \<and> year today \<noteq> year end'")
    case True
    then have sa: "spec_adjusted B today end' = B\<lparr>year := year end'\<rparr>"
      by (simp add: spec_adjusted_def)
    have f2: "\<not> feb29_in_common_year B (year end')"
      using assms(4) sa by (simp add: feb29_open_case_def)
    have "replace_year (B\<lparr>year := year today\<rparr>) (year end') = replace_year B (year end')"
      by (simp add: replace_year_def)
    also have "\<dots> = Inr (B\<lparr>year := year end'\<rparr>)"
      using replace_year_ok [OF assms(1) y2 f2] .
    finally show ?thesis
      using True r1 sa by (simp add: adjusted_birthday_def)
  next
    case False
    then have "spec_adjusted B today end' = B\<lparr>year := year today\<rparr>"
      by (auto simp: spec_adjusted_def)
    then show ?thesis
      using False r1 by (auto simp: adjusted_birthday_def)
  qed
qed

text \<open>
  C1. For valid dates \<open>B\<close>, \<open>today\<close> and \<open>end\<close> outside the open February 29 case,
  \<^verbatim>\<open>is_valid_date\<close> returns true exactly when the adjusted date of the specification
  lies in the closed interval from \<open>today\<close> to \<open>end\<close>; this holds for every \<open>end\<close>, so
  in particular for \<open>today\<close> plus any number of window days. With today = 2024-12-29 and
  the 7-day window (end = 2025-01-05) the birthday 03.01.1985 is adjusted to 2025-01-03 and
  is included.
\<close>

theorem is_valid_date_window:
  "(valid_date B \<and> valid_date today \<and> valid_date end' \<and> \<not> feb29_open_case B today end'
      \<longrightarrow> is_valid_date B today end' = Inr (spec_in_window B today end'))
   \<and> add_days \<lparr>year = 2024, month = 12, day = 29\<rparr> 7 = Inr \<lparr>year = 2025, month = 1, day = 5\<rparr>
   \<and> adjusted_birthday \<lparr>year = 1985, month = 1, day = 3\<rparr> \<lparr>year = 2024, month = 12, day = 29\<rparr>
        \<lparr>year = 2025, month = 1, day = 5\<rparr> = Inr \<lparr>year = 2025, month = 1, day = 3\<rparr>
   \<and> is_valid_date \<lparr>year = 1985, month = 1, day = 3\<rparr> \<lparr>year = 2024, month = 12, day = 29\<rparr>
        \<lparr>year = 2025, month = 1, day = 5\<rparr> = Inr True"
proof (intro conjI impI)
  assume "valid_date B \<and> valid_date today \<and> valid_date end' \<and> \<not> feb29_open_case B today end'"
  then have "adjusted_birthday B today end' = Inr (spec_adjusted B today end')"
    using adjusted_birthday_spec by blast
  then show "is_valid_date B today end' = Inr (spec_in_window B today end')"
    by (simp add: is_valid_date_def spec_in_window_def)
next
  show "add_days \<lparr>year = 2024, month = 12, day = 29\<rparr> 7 = Inr \<lparr>year = 2025, month = 1, day = 5\<rparr>"
    by code_simp
next
  show "adjusted_birthday \<lparr>year = 1985, month = 1, day = 3\<rparr> \<lparr>year = 2024, month = 12, day = 29\<rparr>
        \<lparr>year = 2025, month = 1, day = 5\<rparr> = Inr \<lparr>year = 2025, month = 1, day = 3\<rparr>"
    by code_simp
next
  show "is_valid_date \<lparr>year = 1985, month = 1, day = 3\<rparr> \<lparr>year = 2024, month = 12, day = 29\<rparr>
        \<lparr>year = 2025, month = 1, day = 5\<rparr> = Inr True"
    by code_simp
qed

theorem is_valid_date_window_witness:
  "valid_date \<lparr>year = 1990, month = 6, day = 5\<rparr> \<and> valid_date \<lparr>year = 2024, month = 6, day = 1\<rparr>
   \<and> valid_date \<lparr>year = 2024, month = 6, day = 8\<rparr>
   \<and> \<not> feb29_open_case \<lparr>year = 1990, month = 6, day = 5\<rparr> \<lparr>year = 2024, month = 6, day = 1\<rparr>
        \<lparr>year = 2024, month = 6, day = 8\<rparr>
   \<and> is_valid_date \<lparr>year = 1990, month = 6, day = 5\<rparr> \<lparr>year = 2024, month = 6, day = 1\<rparr>
        \<lparr>year = 2024, month = 6, day = 8\<rparr> = Inr True
   \<and> spec_in_window \<lparr>year = 1990, month = 6, day = 5\<rparr> \<lparr>year = 2024, month = 6, day = 1\<rparr>
        \<lparr>year = 2024, month = 6, day = 8\<rparr>"
proof -
  have h: "valid_date \<lparr>year = 1990, month = 6, day = 5\<rparr> \<and> valid_date \<lparr>year = 2024, month = 6, day = 1\<rparr>
   \<and> valid_date \<lparr>year = 2024, month = 6, day = 8\<rparr>
   \<and> \<not> feb29_open_case \<lparr>year = 1990, month = 6, day = 5\<rparr> \<lparr>year = 2024, month = 6, day = 1\<rparr>
        \<lparr>year = 2024, month = 6, day = 8\<rparr>"
    by code_simp
  have s: "spec_in_window \<lparr>year = 1990, month = 6, day = 5\<rparr> \<lparr>year = 2024, month = 6, day = 1\<rparr>
        \<lparr>year = 2024, month = 6, day = 8\<rparr>"
    by code_simp
  show ?thesis
    using h s is_valid_date_window
      [of "\<lparr>year = 1990, month = 6, day = 5\<rparr>" "\<lparr>year = 2024, month = 6, day = 1\<rparr>"
          "\<lparr>year = 2024, month = 6, day = 8\<rparr>"]
    by simp
qed

section \<open>Phone numbers\<close>

lemma decimal_blocks_ge: "b \<in> set decimal_blocks \<Longrightarrow> 48 \<le> b"
  by (auto simp: decimal_blocks_def)

lemma is_decimal_ge: "is_decimal c \<Longrightarrow> 48 \<le> c"
proof -
  assume "is_decimal c"
  then obtain b where "b \<in> set decimal_blocks" "b \<le> c"
    by (auto simp: is_decimal_def list_ex_iff)
  then show ?thesis
    using decimal_blocks_ge [of b] by simp
qed

lemma decimal_blocks_first: "\<exists>bs. decimal_blocks = 48 # bs"
  by (simp add: decimal_blocks_def)

lemma is_decimal_ascii: "48 \<le> c \<Longrightarrow> c \<le> 57 \<Longrightarrow> is_decimal c"
proof -
  assume a: "48 \<le> c" "c \<le> 57"
  obtain bs where bs: "decimal_blocks = 48 # bs"
    using decimal_blocks_first by blast
  show ?thesis
    using a by (simp add: is_decimal_def bs)
qed

lemma digit_val_ascii: "48 \<le> c \<Longrightarrow> c \<le> 57 \<Longrightarrow> digit_val c = c - 48"
proof -
  assume a: "48 \<le> c" "c \<le> 57"
  obtain bs where bs: "decimal_blocks = 48 # bs"
    using decimal_blocks_first by blast
  show ?thesis
    using a by (simp add: digit_val_def bs)
qed

lemma digit_val_less: "digit_val c < 10"
proof (cases "List.find (\<lambda>b. b \<le> c \<and> c < b + 10) decimal_blocks")
  case None
  then show ?thesis by (simp add: digit_val_def)
next
  case (Some b)
  then have "b \<le> c \<and> c < b + 10"
    by (auto simp: find_Some_iff)
  then have "c - b < 10"
    by arith
  with Some show ?thesis by (simp add: digit_val_def)
qed

lemma ascii_digit_code: "ascii_digit c = (48 \<le> c \<and> c \<le> 57)"
proof -
  have "ascii_digit c = (c \<in> {48, 49, 50, 51, 52, 53, 54, 55, 56, 57})"
    by (simp add: ascii_digit_def ustr_def)
  also have "\<dots> = (48 \<le> c \<and> c \<le> 57)"
    by simp arith
  finally show ?thesis .
qed

lemma ascii_digit_decimal: "ascii_digit c \<Longrightarrow> is_decimal c"
  by (simp add: ascii_digit_code is_decimal_ascii)

lemma re_rep_char:
  "re_rep n (re_char P) s =
     (if n \<le> length s \<and> list_all P (take n s) then [(take n s, drop n s)] else [])"
proof (induction n arbitrary: s)
  case 0
  show ?case by simp
next
  case (Suc n)
  show ?case
  proof (cases s)
    case Nil
    then show ?thesis by (simp add: re_seq_def re_char_def)
  next
    case (Cons c r)
    then show ?thesis
      using Suc [of r] by (simp add: re_seq_def re_char_def)
  qed
qed

lemmas text_eval =
  ustr_def Phone_def validate_def fullmatch_def re_rep_char
  Birthday_def strptime_def format_regex_matches_def and_then_def re_d_def re_m_def
  re_Y_def re_dot_def re_alt_def re_seq_def re_char_def is_char_def in_range_def py_int_def
  strip_def decimal_value_def make_date_def days_in_month_def is_leap_def Let_def
  is_decimal_def digit_val_def decimal_blocks_def

lemma validate_iff: "validate p = ten_decimal_digits p"
  by (auto simp: validate_def fullmatch_def re_rep_char ten_decimal_digits_def)

lemma ten_digits_decimal: "ten_digits p \<Longrightarrow> ten_decimal_digits p"
  using ascii_digit_decimal by (auto simp: ten_digits_def ten_decimal_digits_def list_all_iff)

text \<open>
  C6 (as the code has it). \<^verbatim>\<open>Phone(p)\<close> succeeds exactly on the strings of exactly
  ten characters that \<^verbatim>\<open>\d\<close> matches, that is decimal digits of any script,
  \<^verbatim>\<open>0\<close> to \<^verbatim>\<open>9\<close> among them: on such a string it returns the field with the value
  \<open>p\<close> unchanged, and on every other string it raises the \<^verbatim>\<open>ValueError\<close> that is the
  specification's InvalidFormat. Every string of ten digits \<^verbatim>\<open>0\<close> to \<^verbatim>\<open>9\<close> is
  accepted.
\<close>

theorem Phone_ten_decimal_digits:
  "(ten_decimal_digits p \<longrightarrow> Phone p = Inr p)
   \<and> (\<not> ten_decimal_digits p \<longrightarrow>
        (\<exists>e. Phone p = Inl e \<and> error_kind e = Some InvalidFormat))
   \<and> (ten_digits p \<longrightarrow> Phone p = Inr p)"
  using ten_digits_decimal [of p] by (auto simp: Phone_def validate_iff error_kind_def)

theorem Phone_ten_decimal_digits_witness:
  "ten_digits (ustr ''1234567890'') \<and> Phone (ustr ''1234567890'') = Inr (ustr ''1234567890'')
   \<and> ten_decimal_digits (ustr ''123456789'' @ [1632])
   \<and> Phone (ustr ''123456789'' @ [1632]) = Inr (ustr ''123456789'' @ [1632])
   \<and> \<not> ten_decimal_digits (ustr ''12345'')
   \<and> (\<exists>e. Phone (ustr ''12345'') = Inl e \<and> error_kind e = Some InvalidFormat)"
proof -
  have a: "ten_digits (ustr ''1234567890'')" and b: "\<not> ten_decimal_digits (ustr ''12345'')"
    and c: "ten_decimal_digits (ustr ''123456789'' @ [1632])"
    by (simp_all add: ten_digits_def ten_decimal_digits_def ascii_digit_def text_eval)
  show ?thesis
    using a b c Phone_ten_decimal_digits [of "ustr ''1234567890''"]
      Phone_ten_decimal_digits [of "ustr ''12345''"]
      Phone_ten_decimal_digits [of "ustr ''123456789'' @ [1632]"]
    by blast
qed

text \<open>
  With the digits read as \<^verbatim>\<open>0\<close> to \<^verbatim>\<open>9\<close> the statement of the specification fails:
  \<^verbatim>\<open>123456789\<close> followed by U+0660, the Arabic-Indic digit zero, is not a string of ten
  such digits, and \<^verbatim>\<open>Phone\<close> accepts it.
\<close>

theorem Phone_digit_counterexample:
  "\<not> ten_digits (ustr ''123456789'' @ [1632])
   \<and> Phone (ustr ''123456789'' @ [1632]) = Inr (ustr ''123456789'' @ [1632])"
  by (simp add: ten_digits_def ascii_digit_def text_eval)

section \<open>The methods of a record\<close>

lemma first_with_value_None: "(first_with_value ps x = None) = (x \<notin> set ps)"
  by (induction ps) auto

lemma first_with_value_Some:
  "first_with_value ps x = Some i \<Longrightarrow> i < length ps \<and> ps ! i = x \<and> (\<forall>j<i. ps ! j \<noteq> x)"
proof (induction ps arbitrary: i)
  case Nil
  then show ?case by simp
next
  case (Cons p ps)
  show ?case
  proof (cases "p = x")
    case True
    with Cons.prems show ?thesis by simp
  next
    case False
    with Cons.prems obtain k where k: "first_with_value ps x = Some k" "i = Suc k"
      by auto
    from Cons.IH [OF k(1)] False k(2) show ?thesis
      by (auto simp: nth_Cons split: nat.splits)
  qed
qed

text \<open>
  C3 (as the code has it). \<^verbatim>\<open>edit_phone(old, new)\<close> leaves the record as it is and
  signals NotFound when \<open>old\<close> is not among the phone values; when \<open>old\<close> is present
  and \<open>new\<close> is not a string of exactly ten decimal digits, of any script, it leaves the
  record as it is and signals InvalidFormat (the presence of \<open>old\<close> is checked first);
  otherwise it puts \<open>new\<close> at the position of the first entry equal to \<open>old\<close> and
  changes no other position. Ten digits \<^verbatim>\<open>0\<close> to \<^verbatim>\<open>9\<close> are always a valid new
  number.
\<close>

theorem edit_phone_cases:
  "(old \<notin> set (phones r) \<longrightarrow>
      (\<exists>e. edit_phone r old new = (Inl e, r) \<and> error_kind e = Some NotFound))
   \<and> (old \<in> set (phones r) \<and> \<not> ten_decimal_digits new \<longrightarrow>
      (\<exists>e. edit_phone r old new = (Inl e, r) \<and> error_kind e = Some InvalidFormat))
   \<and> (old \<in> set (phones r) \<and> ten_decimal_digits new \<longrightarrow>
      (\<exists>i<length (phones r). phones r ! i = old \<and> (\<forall>j<i. phones r ! j \<noteq> old) \<and>
         edit_phone r old new = (Inr (), r\<lparr>phones := (phones r)[i := new]\<rparr>)))
   \<and> (ten_digits new \<longrightarrow> ten_decimal_digits new)"
proof (intro conjI impI)
  assume "old \<notin> set (phones r)"
  then have "find_phone r old = None"
    by (simp add: find_phone_def first_with_value_None)
  then show "\<exists>e. edit_phone r old new = (Inl e, r) \<and> error_kind e = Some NotFound"
    by (simp add: edit_phone_def error_kind_def)
next
  assume a: "old \<in> set (phones r) \<and> \<not> ten_decimal_digits new"
  then obtain i where "find_phone r old = Some i"
    using first_with_value_None [of "phones r" old] by (auto simp: find_phone_def)
  then show "\<exists>e. edit_phone r old new = (Inl e, r) \<and> error_kind e = Some InvalidFormat"
    using a by (simp add: edit_phone_def validate_iff error_kind_def)
next
  assume a: "old \<in> set (phones r) \<and> ten_decimal_digits new"
  then obtain i where i: "first_with_value (phones r) old = Some i"
    using first_with_value_None [of "phones r" old] by auto
  have "edit_phone r old new = (Inr (), r\<lparr>phones := (phones r)[i := new]\<rparr>)"
    using a i by (simp add: edit_phone_def find_phone_def validate_iff)
  then show "\<exists>i<length (phones r). phones r ! i = old \<and> (\<forall>j<i. phones r ! j \<noteq> old) \<and>
         edit_phone r old new = (Inr (), r\<lparr>phones := (phones r)[i := new]\<rparr>)"
    using first_with_value_Some [OF i] by blast
next
  assume "ten_digits new"
  then show "ten_decimal_digits new"
    by (rule ten_digits_decimal)
qed

theorem edit_phone_cases_witness:
  "(ustr ''1234567890'' \<in> set (phones \<lparr>name = ustr ''Ann'', phones = [ustr ''1111111111'', ustr ''1234567890'', ustr ''1234567890''], birthday = None\<rparr>)
    \<and> ten_decimal_digits (ustr ''0000000000''))
   \<and> (\<exists>i<length (phones \<lparr>name = ustr ''Ann'', phones = [ustr ''1111111111'', ustr ''1234567890'', ustr ''1234567890''], birthday = None\<rparr>).
        edit_phone \<lparr>name = ustr ''Ann'', phones = [ustr ''1111111111'', ustr ''1234567890'', ustr ''1234567890''], birthday = None\<rparr>
          (ustr ''1234567890'') (ustr ''0000000000'')
        = (Inr (), \<lparr>name = ustr ''Ann'', phones = [ustr ''1111111111'', ustr ''1234567890'', ustr ''1234567890''], birthday = None\<rparr>
             \<lparr>phones := (phones \<lparr>name = ustr ''Ann'', phones = [ustr ''1111111111'', ustr ''1234567890'', ustr ''1234567890''], birthday = None\<rparr>)
                [i := ustr ''0000000000'']\<rparr>))
   \<and> edit_phone \<lparr>name = ustr ''Ann'', phones = [ustr ''1111111111'', ustr ''1234567890'', ustr ''1234567890''], birthday = None\<rparr>
        (ustr ''1234567890'') (ustr ''0000000000'')
      = (Inr (), \<lparr>name = ustr ''Ann'', phones = [ustr ''1111111111'', ustr ''0000000000'', ustr ''1234567890''], birthday = None\<rparr>)
   \<and> ustr ''1234567890'' \<notin> set (phones \<lparr>name = ustr ''Ann'', phones = [ustr ''1111111111''], birthday = None\<rparr>)
   \<and> (\<exists>e. edit_phone \<lparr>name = ustr ''Ann'', phones = [ustr ''1111111111''], birthday = None\<rparr>
         (ustr ''1234567890'') (ustr ''0000000000'')
         = (Inl e, \<lparr>name = ustr ''Ann'', phones = [ustr ''1111111111''], birthday = None\<rparr>)
       \<and> error_kind e = Some NotFound)
   \<and> (ustr ''1111111111'' \<in> set (phones \<lparr>name = ustr ''Ann'', phones = [ustr ''1111111111''], birthday = None\<rparr>)
       \<and> \<not> ten_decimal_digits (ustr ''12''))
   \<and> (\<exists>e. edit_phone \<lparr>name = ustr ''Ann'', phones = [ustr ''1111111111''], birthday = None\<rparr>
         (ustr ''1111111111'') (ustr ''12'')
         = (Inl e, \<lparr>name = ustr ''Ann'', phones = [ustr ''1111111111''], birthday = None\<rparr>)
       \<and> error_kind e = Some InvalidFormat)"
proof -
  let ?r = "\<lparr>name = ustr ''Ann'', phones = [ustr ''1111111111'', ustr ''1234567890'', ustr ''1234567890''], birthday = None\<rparr>"
  let ?q = "\<lparr>name = ustr ''Ann'', phones = [ustr ''1111111111''], birthday = None\<rparr>"
  have t: "ten_decimal_digits (ustr ''0000000000'')"
    by (simp add: ten_decimal_digits_def text_eval)
  have h1: "ustr ''1234567890'' \<in> set (phones ?r) \<and> ten_decimal_digits (ustr ''0000000000'')"
    using t by simp
  have h2: "ustr ''1234567890'' \<notin> set (phones ?q)"
    by (simp add: ustr_def)
  have h3: "ustr ''1111111111'' \<in> set (phones ?q) \<and> \<not> ten_decimal_digits (ustr ''12'')"
    by (simp add: ten_decimal_digits_def ustr_def)
  have v: "edit_phone ?r (ustr ''1234567890'') (ustr ''0000000000'')
      = (Inr (), \<lparr>name = ustr ''Ann'', phones = [ustr ''1111111111'', ustr ''0000000000'', ustr ''1234567890''], birthday = None\<rparr>)"
    using t by (simp add: edit_phone_def find_phone_def validate_iff) (simp add: ustr_def)
  show ?thesis
    using h1 h2 h3 v edit_phone_cases [of "ustr ''1234567890''" ?r "ustr ''0000000000''"]
      edit_phone_cases [of "ustr ''1234567890''" ?q "ustr ''0000000000''"]
      edit_phone_cases [of "ustr ''1111111111''" ?q "ustr ''12''"]
    by blast
qed

text \<open>
  With the digits read as \<^verbatim>\<open>0\<close> to \<^verbatim>\<open>9\<close> the statement of the specification fails:
  the new number \<^verbatim>\<open>123456789\<close> followed by U+0660 is not a string of ten such digits,
  and \<^verbatim>\<open>edit_phone\<close> stores it in place of the old one instead of signalling
  InvalidFormat.
\<close>

theorem edit_phone_digit_counterexample:
  "ustr ''1234567890'' \<in> set (phones \<lparr>name = ustr ''Ann'', phones = [ustr ''1234567890''], birthday = None\<rparr>)
   \<and> \<not> ten_digits (ustr ''123456789'' @ [1632])
   \<and> edit_phone \<lparr>name = ustr ''Ann'', phones = [ustr ''1234567890''], birthday = None\<rparr>
        (ustr ''1234567890'') (ustr ''123456789'' @ [1632])
      = (Inr (), \<lparr>name = ustr ''Ann'', phones = [ustr ''123456789'' @ [1632]], birthday = None\<rparr>)"
proof -
  have "ten_decimal_digits (ustr ''123456789'' @ [1632])"
    by (simp add: ten_decimal_digits_def text_eval)
  then have "edit_phone \<lparr>name = ustr ''Ann'', phones = [ustr ''1234567890''], birthday = None\<rparr>
        (ustr ''1234567890'') (ustr ''123456789'' @ [1632])
      = (Inr (), \<lparr>name = ustr ''Ann'', phones = [ustr ''123456789'' @ [1632]], birthday = None\<rparr>)"
    by (simp add: edit_phone_def find_phone_def validate_iff)
  moreover have "\<not> ten_digits (ustr ''123456789'' @ [1632])"
    by (simp add: ten_digits_def ascii_digit_def ustr_def)
  ultimately show ?thesis
    by simp
qed

text \<open>
  C4. Whenever \<^verbatim>\<open>add_phone\<close>, \<^verbatim>\<open>edit_phone\<close> or \<^verbatim>\<open>add_birthday\<close> signals a
  failure, the record after the call is the record before it. In particular
  \<^verbatim>\<open>edit_phone\<close> with a present old number and a new one that is not ten decimal digits
  fails and keeps the old number, and \<^verbatim>\<open>add_birthday\<close> with a string that
  \<^verbatim>\<open>Birthday\<close> rejects fails and keeps the birthday that was there.
\<close>

theorem failure_leaves_record:
  "(fst (add_phone r phone) = Inl e1 \<longrightarrow> snd (add_phone r phone) = r)
   \<and> (fst (edit_phone r old new) = Inl e2 \<longrightarrow> snd (edit_phone r old new) = r)
   \<and> (fst (add_birthday r text) = Inl e3 \<longrightarrow> snd (add_birthday r text) = r)
   \<and> (old \<in> set (phones r) \<and> \<not> ten_decimal_digits new \<longrightarrow>
        (\<exists>e. edit_phone r old new = (Inl e, r)))
   \<and> (Birthday text = Inl e3 \<longrightarrow> add_birthday r text = (Inl e3, r))"
proof (intro conjI impI)
  assume "fst (add_phone r phone) = Inl e1"
  then show "snd (add_phone r phone) = r"
    by (simp add: add_phone_def split: sum.splits)
next
  assume "fst (edit_phone r old new) = Inl e2"
  then show "snd (edit_phone r old new) = r"
    by (simp add: edit_phone_def split: option.splits if_splits)
next
  assume "fst (add_birthday r text) = Inl e3"
  then show "snd (add_birthday r text) = r"
    by (simp add: add_birthday_def split: sum.splits)
next
  assume a: "old \<in> set (phones r) \<and> \<not> ten_decimal_digits new"
  then obtain i where "find_phone r old = Some i"
    using first_with_value_None [of "phones r" old] by (auto simp: find_phone_def)
  then show "\<exists>e. edit_phone r old new = (Inl e, r)"
    using a by (simp add: edit_phone_def validate_iff)
next
  assume "Birthday text = Inl e3"
  then show "add_birthday r text = (Inl e3, r)"
    by (simp add: add_birthday_def)
qed

theorem failure_leaves_record_witness:
  "fst (add_phone \<lparr>name = ustr ''Ann'', phones = [ustr ''1111111111''], birthday = Some \<lparr>year = 1990, month = 3, day = 5\<rparr>\<rparr> (ustr ''12''))
     = Inl (ValueError ''Phone must contain exactly 10 digits.'')
   \<and> snd (add_phone \<lparr>name = ustr ''Ann'', phones = [ustr ''1111111111''], birthday = Some \<lparr>year = 1990, month = 3, day = 5\<rparr>\<rparr> (ustr ''12''))
     = \<lparr>name = ustr ''Ann'', phones = [ustr ''1111111111''], birthday = Some \<lparr>year = 1990, month = 3, day = 5\<rparr>\<rparr>
   \<and> fst (edit_phone \<lparr>name = ustr ''Ann'', phones = [ustr ''1111111111''], birthday = Some \<lparr>year = 1990, month = 3, day = 5\<rparr>\<rparr>
          (ustr ''1111111111'') (ustr ''12''))
     = Inl (ValueError ''New phone must contain exactly 10 digits.'')
   \<and> snd (edit_phone \<lparr>name = ustr ''Ann'', phones = [ustr ''1111111111''], birthday = Some \<lparr>year = 1990, month = 3, day = 5\<rparr>\<rparr>
          (ustr ''1111111111'') (ustr ''12''))
     = \<lparr>name = ustr ''Ann'', phones = [ustr ''1111111111''], birthday = Some \<lparr>year = 1990, month = 3, day = 5\<rparr>\<rparr>
   \<and> fst (add_birthday \<lparr>name = ustr ''Ann'', phones = [ustr ''1111111111''], birthday = Some \<lparr>year = 1990, month = 3, day = 5\<rparr>\<rparr>
          (ustr ''31.04.2000''))
     = Inl (ValueError ''Invalid date format. Use DD.MM.YYYY'')
   \<and> snd (add_birthday \<lparr>name = ustr ''Ann'', phones = [ustr ''1111111111''], birthday = Some \<lparr>year = 1990, month = 3, day = 5\<rparr>\<rparr>
          (ustr ''31.04.2000''))
     = \<lparr>name = ustr ''Ann'', phones = [ustr ''1111111111''], birthday = Some \<lparr>year = 1990, month = 3, day = 5\<rparr>\<rparr>"
proof -
  let ?r = "\<lparr>name = ustr ''Ann'', phones = [ustr ''1111111111''], birthday = Some \<lparr>year = 1990, month = 3, day = 5\<rparr>\<rparr>"
  have n: "\<not> validate (ustr ''12'')"
    by (simp add: validate_iff ten_decimal_digits_def ustr_def)
  have a: "fst (add_phone ?r (ustr ''12'')) = Inl (ValueError ''Phone must contain exactly 10 digits.'')"
    using n by (simp add: add_phone_def Phone_def)
  have b: "fst (edit_phone ?r (ustr ''1111111111'') (ustr ''12''))
      = Inl (ValueError ''New phone must contain exactly 10 digits.'')"
    using n by (simp add: edit_phone_def find_phone_def)
  have "Birthday (ustr ''31.04.2000'') = Inl (ValueError ''Invalid date format. Use DD.MM.YYYY'')"
    by (simp add: text_eval)
  then have c: "fst (add_birthday ?r (ustr ''31.04.2000'')) = Inl (ValueError ''Invalid date format. Use DD.MM.YYYY'')"
    by (simp add: add_birthday_def)
  show ?thesis
    using a b c
      failure_leaves_record [of ?r "ustr ''12''" "ValueError ''Phone must contain exactly 10 digits.''"
        "ustr ''1111111111''" "ustr ''12''" "ValueError ''New phone must contain exactly 10 digits.''"
        "ustr ''31.04.2000''" "ValueError ''Invalid date format. Use DD.MM.YYYY''"]
    by blast
qed

text \<open>
  C10. Constructing a record validates nothing: for every string \<open>s\<close>, the empty one
  included, \<^verbatim>\<open>Record(s)\<close> succeeds with the name \<open>s\<close>, no phones and no birthday, and
  \<^verbatim>\<open>add_record\<close> files the record under the key \<open>s\<close>.
\<close>

theorem Record_init_any_name:
  "Record_init s = Inr \<lparr>name = s, phones = [], birthday = None\<rparr>
   \<and> find (add_record book \<lparr>name = s, phones = [], birthday = None\<rparr>) s
       = Some \<lparr>name = s, phones = [], birthday = None\<rparr>
   \<and> Record_init [] = Inr \<lparr>name = [], phones = [], birthday = None\<rparr>"
proof -
  have "map_of (dict_set b k v) k = Some v" for b :: AddressBook and k v
    by (induction b) auto
  then show ?thesis
    by (simp add: Record_init_def Name_def find_def add_record_def)
qed

section \<open>The directory\<close>

lemma map_of_dict_set: "map_of (dict_set b k v) = (map_of b)(k \<mapsto> v)"
  by (induction b) (auto simp: fun_eq_iff)

lemma keys_dict_set:
  "map fst (dict_set b k v) = (if k \<in> set (map fst b) then map fst b else map fst b @ [k])"
  by (induction b) (force simp: image_iff)+

lemma dict_set_twice: "dict_set (dict_set b k v1) k v2 = dict_set b k v2"
  by (induction b) auto

lemma dict_set_only_entry:
  "distinct (map fst b) \<Longrightarrow> filter (\<lambda>kv. fst kv = k) (dict_set b k v) = [(k, v)]"
proof (induction b)
  case Nil
  show ?case by simp
next
  case (Cons a b)
  have "fst a = k \<Longrightarrow> filter (\<lambda>kv. fst kv = k) b = []"
    using Cons.prems by (force simp: filter_empty_conv image_iff)
  then show ?case
    using Cons by (cases a) auto
qed

text \<open>
  C5. \<^verbatim>\<open>add_record\<close> makes the record the entry of its name, leaves every other name
  as it was, and adds a key at the end only when the name was absent. Adding two records
  of the same name one after the other gives the directory that adding the second alone
  gives: the lookup returns the second record, and in a directory with unique keys it is
  the only entry of that name, so nothing of the first record remains.
\<close>

theorem add_record_last_write_wins:
  "find (add_record book r) (name r) = Some r
   \<and> (n \<noteq> name r \<longrightarrow> find (add_record book r) n = find book n)
   \<and> map fst (add_record book r)
       = (if name r \<in> set (map fst book) then map fst book else map fst book @ [name r])
   \<and> (name r1 = name r2 \<longrightarrow>
        add_record (add_record book r1) r2 = add_record book r2
        \<and> find (add_record (add_record book r1) r2) (name r1) = Some r2
        \<and> (distinct (map fst book) \<longrightarrow>
             filter (\<lambda>kv. fst kv = name r1) (add_record (add_record book r1) r2)
               = [(name r2, r2)]))"
proof (intro conjI impI)
  show "find (add_record book r) (name r) = Some r"
    by (simp add: find_def add_record_def map_of_dict_set)
next
  assume "n \<noteq> name r"
  then show "find (add_record book r) n = find book n"
    by (simp add: find_def add_record_def map_of_dict_set)
next
  show "map fst (add_record book r)
       = (if name r \<in> set (map fst book) then map fst book else map fst book @ [name r])"
    unfolding add_record_def by (rule keys_dict_set)
next
  assume "name r1 = name r2"
  then show "add_record (add_record book r1) r2 = add_record book r2"
    by (simp add: add_record_def dict_set_twice)
next
  assume "name r1 = name r2"
  then show "find (add_record (add_record book r1) r2) (name r1) = Some r2"
    by (simp add: find_def add_record_def map_of_dict_set)
next
  assume eq: "name r1 = name r2" and "distinct (map fst book)"
  then have "filter (\<lambda>kv. fst kv = name r2) (dict_set book (name r2) r2) = [(name r2, r2)]"
    by (simp add: dict_set_only_entry)
  then show "filter (\<lambda>kv. fst kv = name r1) (add_record (add_record book r1) r2)
               = [(name r2, r2)]"
    using eq by (simp add: add_record_def dict_set_twice)
qed

theorem add_record_last_write_wins_witness:
  "add_record (add_record [(ustr ''Bob'', \<lparr>name = ustr ''Bob'', phones = [], birthday = None\<rparr>)]
       \<lparr>name = ustr ''Ann'', phones = [ustr ''1111111111''], birthday = Some \<lparr>year = 1990, month = 3, day = 5\<rparr>\<rparr>)
       \<lparr>name = ustr ''Ann'', phones = [], birthday = None\<rparr>
     = [(ustr ''Bob'', \<lparr>name = ustr ''Bob'', phones = [], birthday = None\<rparr>),
        (ustr ''Ann'', \<lparr>name = ustr ''Ann'', phones = [], birthday = None\<rparr>)]
   \<and> find (add_record (add_record [(ustr ''Bob'', \<lparr>name = ustr ''Bob'', phones = [], birthday = None\<rparr>)]
       \<lparr>name = ustr ''Ann'', phones = [ustr ''1111111111''], birthday = Some \<lparr>year = 1990, month = 3, day = 5\<rparr>\<rparr>)
       \<lparr>name = ustr ''Ann'', phones = [], birthday = None\<rparr>) (ustr ''Ann'')
     = Some \<lparr>name = ustr ''Ann'', phones = [], birthday = None\<rparr>
   \<and> find (add_record [(ustr ''Bob'', \<lparr>name = ustr ''Bob'', phones = [], birthday = None\<rparr>)]
       \<lparr>name = ustr ''Ann'', phones = [], birthday = None\<rparr>) (ustr ''Bob'')
     = Some \<lparr>name = ustr ''Bob'', phones = [], birthday = None\<rparr>"
proof -
  let ?b = "[(ustr ''Bob'', \<lparr>name = ustr ''Bob'', phones = [], birthday = None\<rparr>)]"
  let ?r1 = "\<lparr>name = ustr ''Ann'', phones = [ustr ''1111111111''], birthday = Some \<lparr>year = 1990, month = 3, day = 5\<rparr>\<rparr>"
  let ?r2 = "\<lparr>name = ustr ''Ann'', phones = [], birthday = None\<rparr>"
  have n: "name ?r1 = name ?r2" and m: "ustr ''Bob'' \<noteq> name ?r2"
    by (simp_all add: ustr_def)
  have v: "add_record ?b ?r2 = [(ustr ''Bob'', \<lparr>name = ustr ''Bob'', phones = [], birthday = None\<rparr>), (ustr ''Ann'', ?r2)]"
    and w: "find ?b (ustr ''Bob'') = Some \<lparr>name = ustr ''Bob'', phones = [], birthday = None\<rparr>"
    by (simp_all add: add_record_def find_def ustr_def)
  show ?thesis
    using n m v w add_record_last_write_wins [of ?b ?r2 "ustr ''Bob''" ?r1 ?r2]
    by simp
qed

text \<open>
  C9. \<^verbatim>\<open>birthdays\<close> is read-only: whether it returns or raises, the directory after
  the call, with every key, record name, phone list and birthday, is the directory before
  it.
\<close>

theorem birthdays_read_only: "snd (birthdays book today) = book"
  by (simp add: birthdays_def split: sum.splits)

lemma birthdays_loop_entries:
  "birthdays_loop (map snd book) today end' acc = Inr res \<Longrightarrow>
     res = acc @ window_entries book today end'"
proof (induction book arbitrary: acc)
  case Nil
  then show ?case by (simp add: window_entries_def)
next
  case (Cons kv book)
  show ?case
  proof (cases "birthday (snd kv)")
    case None
    with Cons show ?thesis by (simp add: window_entries_def)
  next
    case (Some b)
    then obtain ok where ok: "is_valid_date b today end' = Inr ok"
      using Cons.prems by (auto split: sum.splits)
    then have "birthdays_loop (map snd book) today end'
        (if ok then acc @ [(name (snd kv), b)] else acc) = Inr res"
      using Cons.prems Some by simp
    from Cons.IH [OF this] show ?thesis
      using Some ok by (auto simp: window_entries_def)
  qed
qed

lemma date_key_eq: "(date_key a = date_key b) = (a = (b :: date))"
  by (cases a, cases b) (auto simp: date_key_def)

text \<open>
  C2 (as the code has it). When \<^verbatim>\<open>birthdays\<close> returns, the sequence is ordered
  ascending by the stored birthday itself, birth year included, and not by the adjusted
  date; entries with the same stored date keep the order of the directory. The sequence
  holds exactly the directory's entries whose birthday passes the window test for
  today and today plus 7 days.
\<close>

theorem birthdays_sorted_by_stored_date:
  "fst (birthdays book today) = Inr result \<longrightarrow>
     (\<exists>end'. add_days today 7 = Inr end'
        \<and> sorted_wrt (\<lambda>a b. date_le (snd a) (snd b)) result
        \<and> (\<forall>d. filter (\<lambda>item. snd item = d) result
                 = filter (\<lambda>item. snd item = d) (window_entries book today end')))"
proof
  assume a: "fst (birthdays book today) = Inr result"
  then obtain end' where e: "add_days today 7 = Inr end'"
    by (auto simp: birthdays_def split: sum.splits)
  with a obtain res where l: "birthdays_loop (map snd book) today end' [] = Inr res"
    and r: "result = sort_key (\<lambda>item. date_key (snd item)) res"
    by (auto simp: birthdays_def split: sum.splits)
  have w: "res = window_entries book today end'"
    using birthdays_loop_entries [OF l] by simp
  have "sorted (map (\<lambda>item. date_key (snd item)) result)"
    unfolding r by (rule sorted_sort_key)
  then have s: "sorted_wrt (\<lambda>a b. date_le (snd a) (snd b)) result"
    by (simp add: sorted_map date_le_def)
  have "filter (\<lambda>item. snd item = d) result = filter (\<lambda>item. snd item = d) res" for d
    using sort_key_stable [of "\<lambda>item. date_key (snd item)" "date_key d" res]
    by (simp add: r date_key_eq)
  with e s w show "\<exists>end'. add_days today 7 = Inr end'
        \<and> sorted_wrt (\<lambda>a b. date_le (snd a) (snd b)) result
        \<and> (\<forall>d. filter (\<lambda>item. snd item = d) result
                 = filter (\<lambda>item. snd item = d) (window_entries book today end'))"
    by blast
qed

theorem birthdays_sorted_by_stored_date_witness:
  "fst (birthdays
        [(ustr ''Ann'', \<lparr>name = ustr ''Ann'', phones = [], birthday = Some \<lparr>year = 1990, month = 6, day = 5\<rparr>\<rparr>),
         (ustr ''Bob'', \<lparr>name = ustr ''Bob'', phones = [], birthday = Some \<lparr>year = 1985, month = 6, day = 7\<rparr>\<rparr>)]
        \<lparr>year = 2024, month = 6, day = 1\<rparr>)
     = Inr [(ustr ''Bob'', \<lparr>year = 1985, month = 6, day = 7\<rparr>), (ustr ''Ann'', \<lparr>year = 1990, month = 6, day = 5\<rparr>)]
   \<and> (\<exists>end'. add_days \<lparr>year = 2024, month = 6, day = 1\<rparr> 7 = Inr end'
        \<and> sorted_wrt (\<lambda>a b. date_le (snd a) (snd b))
             [(ustr ''Bob'', \<lparr>year = 1985, month = 6, day = 7\<rparr>), (ustr ''Ann'', \<lparr>year = 1990, month = 6, day = 5\<rparr>)]
        \<and> (\<forall>d. filter (\<lambda>item. snd item = d)
                   [(ustr ''Bob'', \<lparr>year = 1985, month = 6, day = 7\<rparr>), (ustr ''Ann'', \<lparr>year = 1990, month = 6, day = 5\<rparr>)]
                 = filter (\<lambda>item. snd item = d)
                     (window_entries
                        [(ustr ''Ann'', \<lparr>name = ustr ''Ann'', phones = [], birthday = Some \<lparr>year = 1990, month = 6, day = 5\<rparr>\<rparr>),
                         (ustr ''Bob'', \<lparr>name = ustr ''Bob'', phones = [], birthday = Some \<lparr>year = 1985, month = 6, day = 7\<rparr>\<rparr>)]
                        \<lparr>year = 2024, month = 6, day = 1\<rparr> end')))"
proof -
  have h: "fst (birthdays
        [(ustr ''Ann'', \<lparr>name = ustr ''Ann'', phones = [], birthday = Some \<lparr>year = 1990, month = 6, day = 5\<rparr>\<rparr>),
         (ustr ''Bob'', \<lparr>name = ustr ''Bob'', phones = [], birthday = Some \<lparr>year = 1985, month = 6, day = 7\<rparr>\<rparr>)]
        \<lparr>year = 2024, month = 6, day = 1\<rparr>)
     = Inr [(ustr ''Bob'', \<lparr>year = 1985, month = 6, day = 7\<rparr>), (ustr ''Ann'', \<lparr>year = 1990, month = 6, day = 5\<rparr>)]"
    by code_simp
  show ?thesis
    using h birthdays_sorted_by_stored_date
      [of "[(ustr ''Ann'', \<lparr>name = ustr ''Ann'', phones = [], birthday = Some \<lparr>year = 1990, month = 6, day = 5\<rparr>\<rparr>),
            (ustr ''Bob'', \<lparr>name = ustr ''Bob'', phones = [], birthday = Some \<lparr>year = 1985, month = 6, day = 7\<rparr>\<rparr>)]"
          "\<lparr>year = 2024, month = 6, day = 1\<rparr>"
          "[(ustr ''Bob'', \<lparr>year = 1985, month = 6, day = 7\<rparr>), (ustr ''Ann'', \<lparr>year = 1990, month = 6, day = 5\<rparr>)]"]
    by blast
qed

text \<open>
  The order that the specification states fails for two contacts born on 05.06.1990 and
  07.06.1985 when today is 2024-06-01: the call returns the contact of 07.06.1985 first,
  though its adjusted date 2024-06-07 is after the other's 2024-06-05.
\<close>

theorem birthdays_order_counterexample:
  "fst (birthdays
        [(ustr ''Ann'', \<lparr>name = ustr ''Ann'', phones = [], birthday = Some \<lparr>year = 1990, month = 6, day = 5\<rparr>\<rparr>),
         (ustr ''Bob'', \<lparr>name = ustr ''Bob'', phones = [], birthday = Some \<lparr>year = 1985, month = 6, day = 7\<rparr>\<rparr>)]
        \<lparr>year = 2024, month = 6, day = 1\<rparr>)
     = Inr [(ustr ''Bob'', \<lparr>year = 1985, month = 6, day = 7\<rparr>), (ustr ''Ann'', \<lparr>year = 1990, month = 6, day = 5\<rparr>)]
   \<and> add_days \<lparr>year = 2024, month = 6, day = 1\<rparr> 7 = Inr \<lparr>year = 2024, month = 6, day = 8\<rparr>
   \<and> adjusted_birthday \<lparr>year = 1985, month = 6, day = 7\<rparr> \<lparr>year = 2024, month = 6, day = 1\<rparr>
        \<lparr>year = 2024, month = 6, day = 8\<rparr> = Inr \<lparr>year = 2024, month = 6, day = 7\<rparr>
   \<and> adjusted_birthday \<lparr>year = 1990, month = 6, day = 5\<rparr> \<lparr>year = 2024, month = 6, day = 1\<rparr>
        \<lparr>year = 2024, month = 6, day = 8\<rparr> = Inr \<lparr>year = 2024, month = 6, day = 5\<rparr>
   \<and> \<not> date_le \<lparr>year = 2024, month = 6, day = 7\<rparr> \<lparr>year = 2024, month = 6, day = 5\<rparr>
   \<and> \<not> ordered_by_adjusted \<lparr>year = 2024, month = 6, day = 1\<rparr> \<lparr>year = 2024, month = 6, day = 8\<rparr>
        [(ustr ''Bob'', \<lparr>year = 1985, month = 6, day = 7\<rparr>), (ustr ''Ann'', \<lparr>year = 1990, month = 6, day = 5\<rparr>)]"
  by code_simp

section \<open>The text format of a birthday\<close>

subsection \<open>Digits, blanks and the conversion of a group\<close>

lemma in_ustr_19: "(c \<in> set (ustr ''123456789'')) = (49 \<le> c \<and> c \<le> 57)"
proof -
  have "(c \<in> set (ustr ''123456789'')) = (c \<in> {49, 50, 51, 52, 53, 54, 55, 56, 57})"
    by (simp add: ustr_def)
  also have "\<dots> = (49 \<le> c \<and> c \<le> 57)"
    by simp arith
  finally show ?thesis .
qed

lemma in_ustr_small:
  "(c \<in> set (ustr ''12'')) = (c = 49 \<or> c = 50)"
  "(c \<in> set (ustr ''01'')) = (c = 48 \<or> c = 49)"
  "(c \<in> set (ustr ''012'')) = (c = 48 \<or> c = 49 \<or> c = 50)"
  "(c \<in> set (ustr ''0 '')) = (c = 48 \<or> c = 32)"
  by (simp_all add: ustr_def)

lemma is_decimal_not_blank: "is_decimal c \<Longrightarrow> c \<noteq> 32 \<and> c \<noteq> 46"
  using is_decimal_ge [of c] by auto

lemma strip_decimals:
  assumes "list_all is_decimal t"
  shows "strip t = t"
proof (cases "t = []")
  case True
  then show ?thesis by (simp add: strip_def)
next
  case False
  then have "is_decimal (hd t)" and "is_decimal (last t)"
    using assms by (simp_all add: list_all_iff)
  then have h: "hd t \<noteq> 32" and l: "hd (rev t) \<noteq> 32"
    using False by (simp_all add: is_decimal_not_blank hd_rev)
  have "dropWhile (is_char (CHR '' '')) t = t"
    using h by (simp add: dropWhile_eq_self_iff is_char_def)
  moreover have "dropWhile (is_char (CHR '' '')) (rev t) = rev t"
    using l by (simp add: dropWhile_eq_self_iff is_char_def)
  ultimately show ?thesis by (simp add: strip_def)
qed

lemma py_int_decimals: "t \<noteq> [] \<Longrightarrow> list_all is_decimal t \<Longrightarrow> py_int t = Inr (decimal_value t)"
  by (simp add: py_int_def strip_decimals)

lemma py_int_blank: "is_decimal c \<Longrightarrow> py_int [32, c] = Inr (digit_val c)"
  using is_decimal_not_blank [of c] by (simp add: py_int_def strip_def decimal_value_def is_char_def)

lemma py_int_one: "is_decimal a \<Longrightarrow> py_int [a] = Inr (digit_val a)"
  using py_int_decimals [of "[a]"] by (simp add: decimal_value_def)

lemma py_int_two: "is_decimal a \<Longrightarrow> is_decimal b \<Longrightarrow> py_int [a, b] = Inr (10 * digit_val a + digit_val b)"
  using py_int_decimals [of "[a, b]"] by (simp add: decimal_value_def)

lemma py_int_four:
  "is_decimal a \<Longrightarrow> is_decimal b \<Longrightarrow> is_decimal c \<Longrightarrow> is_decimal d \<Longrightarrow>
   py_int [a, b, c, d] = Inr (1000 * digit_val a + 100 * digit_val b + 10 * digit_val c + digit_val d)"
  using py_int_decimals [of "[a, b, c, d]"] by (simp add: decimal_value_def)

subsection \<open>What the groups of the expression match\<close>

lemma re_char_mem: "((D, r) \<in> set (re_char P s)) = (\<exists>c. s = c # r \<and> D = [c] \<and> P c)"
  by (cases s) (auto simp: re_char_def)

lemma re_seq_mem:
  "((D, r) \<in> set (re_seq p q s)) = (\<exists>a m b. (a, m) \<in> set (p s) \<and> (b, r) \<in> set (q m) \<and> D = a @ b)"
  by (force simp: re_seq_def)

lemma re_alt_mem: "(x \<in> set (re_alt p q s)) = (x \<in> set (p s) \<or> x \<in> set (q s))"
  by (simp add: re_alt_def)

lemma re_two_chars_mem:
  "((D, r) \<in> set (re_seq (re_char P) (re_char Q) s))
     = (\<exists>a b. s = a # b # r \<and> D = [a, b] \<and> P a \<and> Q b)"
  by (auto simp: re_seq_mem re_char_mem)

lemma re_d_mem:
  "((D, r) \<in> set (re_d s)) =
     ((\<exists>a b. s = a # b # r \<and> D = [a, b] \<and> is_char (CHR ''3'') a \<and> in_range (CHR ''0'') (CHR ''1'') b)
      \<or> (\<exists>a b. s = a # b # r \<and> D = [a, b] \<and> in_range (CHR ''1'') (CHR ''2'') a \<and> is_decimal b)
      \<or> (\<exists>a b. s = a # b # r \<and> D = [a, b] \<and> is_char (CHR ''0'') a \<and> in_range (CHR ''1'') (CHR ''9'') b)
      \<or> (\<exists>c. s = c # r \<and> D = [c] \<and> in_range (CHR ''1'') (CHR ''9'') c)
      \<or> (\<exists>a b. s = a # b # r \<and> D = [a, b] \<and> is_char (CHR '' '') a \<and> in_range (CHR ''1'') (CHR ''9'') b))"
  unfolding re_d_def re_alt_mem re_two_chars_mem re_char_mem by (rule refl)

lemma re_m_mem:
  "((M, r) \<in> set (re_m s)) =
     ((\<exists>a b. s = a # b # r \<and> M = [a, b] \<and> is_char (CHR ''1'') a \<and> in_range (CHR ''0'') (CHR ''2'') b)
      \<or> (\<exists>a b. s = a # b # r \<and> M = [a, b] \<and> is_char (CHR ''0'') a \<and> in_range (CHR ''1'') (CHR ''9'') b)
      \<or> (\<exists>c. s = c # r \<and> M = [c] \<and> in_range (CHR ''1'') (CHR ''9'') c))"
  unfolding re_m_def re_alt_mem re_two_chars_mem re_char_mem by (rule refl)

lemma re_Y_mem:
  "((Y, r) \<in> set (re_Y s)) = (s = Y @ r \<and> length Y = 4 \<and> list_all is_decimal Y)"
  by (auto simp: re_Y_def re_rep_char)

lemma re_dot_mem: "((x, r) \<in> set (re_dot s)) = (s = 46 # r \<and> x = [46])"
  by (auto simp: re_dot_def re_char_mem is_char_def)

lemma day_group:
  assumes "(D, r) \<in> set (re_d s)"
  shows "s = D @ r \<and> (\<exists>n. day_text D n)"
  using assms [unfolded re_d_mem]
proof (elim disjE exE conjE, goal_cases)
  case (1 a b)
  then have "b = 48 \<or> b = 49" by (simp add: in_range_def) arith
  with 1 show ?case by (auto simp: is_char_def in_ustr_small)
next
  case (2 a b)
  then have "a = 49 \<or> a = 50" by (simp add: in_range_def) arith
  with 2 show ?case by (auto simp: in_ustr_small)
next
  case (3 a b)
  then show ?case by (simp add: is_char_def in_range_def in_ustr_small in_ustr_19)
next
  case (4 c)
  then show ?case by (simp add: in_range_def in_ustr_19)
next
  case (5 a b)
  then show ?case by (simp add: is_char_def in_range_def in_ustr_small in_ustr_19)
qed

lemma day_text_shape:
  assumes "day_text D n"
  obtains (one) a where "D = [a]" "49 \<le> a" "a \<le> 57" "n = a - 48"
  | (pad) a b where "D = [a, b]" "a = 48 \<or> a = 32" "49 \<le> b" "b \<le> 57" "n = b - 48"
  | (two) a b where "D = [a, b]" "a = 49 \<or> a = 50" "is_decimal b" "n = 10 * (a - 48) + digit_val b"
  | (three) b where "D = [51, b]" "b = 48 \<or> b = 49" "n = 30 + (b - 48)"
  using assms
proof (induction D n rule: day_text.induct)
  case (1 a n)
  then show ?case by (simp add: in_ustr_19)
next
  case (2 a b n)
  from "2.prems"(5) consider
    "a \<in> set (ustr ''0 '')" "b \<in> set (ustr ''123456789'')" "n = b - 48"
    | "a \<in> set (ustr ''12'')" "is_decimal b" "n = 10 * (a - 48) + digit_val b"
    | "a = 51" "b \<in> set (ustr ''01'')" "n = 30 + (b - 48)"
    by auto
  then show ?case
  proof cases
    case 1
    then show ?thesis using "2.prems"(2) [of a b] by (simp add: in_ustr_small in_ustr_19)
  next
    case 2
    then show ?thesis using "2.prems"(3) [of a b] by (simp add: in_ustr_small)
  next
    case 3
    then show ?thesis using "2.prems"(4) [of b] by (simp add: in_ustr_small)
  qed
qed simp_all

lemma day_text_props:
  assumes "day_text D n"
  shows "(D, r) \<in> set (re_d (D @ r)) \<and> py_int D = Inr n \<and> 46 \<notin> set D"
  using assms
proof (cases rule: day_text_shape)
  case (one a)
  then have "is_decimal a" "digit_val a = a - 48"
    by (simp_all add: is_decimal_ascii digit_val_ascii)
  with one show ?thesis
    by (simp add: re_d_mem in_range_def is_char_def py_int_one)
next
  case (pad a b)
  then have d: "is_decimal b" "digit_val b = b - 48"
    by (simp_all add: is_decimal_ascii digit_val_ascii)
  from pad(2) show ?thesis
  proof
    assume a: "a = 48"
    then have "is_decimal a" "digit_val a = 0"
      by (simp_all add: is_decimal_ascii digit_val_ascii)
    with pad a d show ?thesis
      by (simp add: re_d_mem in_range_def is_char_def py_int_two)
  next
    assume a: "a = 32"
    with pad d show ?thesis
      by (simp add: re_d_mem in_range_def is_char_def py_int_blank)
  qed
next
  case (two a b)
  then have "is_decimal a" "digit_val a = a - 48"
    by (auto simp: is_decimal_ascii digit_val_ascii)
  moreover have "b \<noteq> 46"
    using two(3) is_decimal_not_blank by blast
  ultimately show ?thesis
    using two by (auto simp: re_d_mem in_range_def is_char_def py_int_two)
next
  case (three b)
  then have "is_decimal b" "digit_val b = b - 48" "is_decimal 51" "digit_val 51 = 3"
    by (auto simp: is_decimal_ascii digit_val_ascii)
  with three show ?thesis
    by (auto simp: re_d_mem in_range_def is_char_def py_int_two)
qed

lemma month_text_shape:
  assumes "month_text M n"
  obtains (one) a where "M = [a]" "49 \<le> a" "a \<le> 57" "n = a - 48"
  | (pad) b where "M = [48, b]" "49 \<le> b" "b \<le> 57" "n = b - 48"
  | (two) b where "M = [49, b]" "b = 48 \<or> b = 49 \<or> b = 50" "n = 10 + (b - 48)"
  using assms
proof (induction M n rule: month_text.induct)
  case (1 a n)
  then show ?case by (simp add: in_ustr_19)
next
  case (2 a b n)
  from "2.prems"(4) consider
    "a = 48" "b \<in> set (ustr ''123456789'')" "n = b - 48"
    | "a = 49" "b \<in> set (ustr ''012'')" "n = 10 + (b - 48)"
    by auto
  then show ?case
  proof cases
    case 1
    then show ?thesis using "2.prems"(2) [of b] by (simp add: in_ustr_19)
  next
    case 2
    then show ?thesis using "2.prems"(3) [of b] by (simp add: in_ustr_small)
  qed
qed simp_all

lemma month_group:
  assumes "(M, r) \<in> set (re_m s)"
  shows "s = M @ r \<and> (\<exists>n. month_text M n)"
  using assms [unfolded re_m_mem]
proof (elim disjE exE conjE, goal_cases)
  case (1 a b)
  then have "b = 48 \<or> b = 49 \<or> b = 50" by (simp add: in_range_def) arith
  with 1 show ?case by (auto simp: is_char_def in_ustr_small)
next
  case (2 a b)
  then show ?case by (simp add: is_char_def in_range_def in_ustr_19)
next
  case (3 c)
  then show ?case by (simp add: in_range_def in_ustr_19)
qed

lemma month_text_props:
  assumes "month_text M n"
  shows "(M, r) \<in> set (re_m (M @ r)) \<and> py_int M = Inr n \<and> 46 \<notin> set M"
  using assms
proof (cases rule: month_text_shape)
  case (one a)
  then have "is_decimal a" "digit_val a = a - 48"
    by (simp_all add: is_decimal_ascii digit_val_ascii)
  with one show ?thesis
    by (simp add: re_m_mem in_range_def is_char_def py_int_one)
next
  case (pad b)
  then have "is_decimal b" "digit_val b = b - 48" "is_decimal 48" "digit_val 48 = 0"
    by (simp_all add: is_decimal_ascii digit_val_ascii)
  with pad show ?thesis
    by (simp add: re_m_mem in_range_def is_char_def py_int_two)
next
  case (two b)
  then have "is_decimal b" "digit_val b = b - 48" "is_decimal 49" "digit_val 49 = 1"
    by (auto simp: is_decimal_ascii digit_val_ascii)
  with two show ?thesis
    by (auto simp: re_m_mem in_range_def is_char_def py_int_two)
qed

lemma year_text_shape:
  assumes "year_text Y n"
  obtains a b c d where "Y = [a, b, c, d]" "is_decimal a" "is_decimal b" "is_decimal c"
    "is_decimal d" "n = 1000 * digit_val a + 100 * digit_val b + 10 * digit_val c + digit_val d"
  using assms by (induction Y n rule: year_text.induct) simp_all

lemma year_group:
  assumes "(Y, r) \<in> set (re_Y s)"
  shows "s = Y @ r \<and> (\<exists>n. year_text Y n)"
proof -
  from assms have s: "s = Y @ r" and len: "length Y = 4" and dig: "list_all is_decimal Y"
    by (simp_all add: re_Y_mem)
  from len obtain a b c d where Y: "Y = [a, b, c, d]"
    by (auto simp: eval_nat_numeral length_Suc_conv)
  show ?thesis
    using s dig by (simp add: Y)
qed

lemma year_text_props:
  assumes "year_text Y n"
  shows "(Y, r) \<in> set (re_Y (Y @ r)) \<and> py_int Y = Inr n \<and> 46 \<notin> set Y \<and> length Y = 4"
  using assms
proof (cases rule: year_text_shape)
  case (1 a b c d)
  then show ?thesis
    using is_decimal_not_blank [of a] is_decimal_not_blank [of b] is_decimal_not_blank [of c]
      is_decimal_not_blank [of d]
    by (simp add: re_Y_mem py_int_four)
qed

subsection \<open>The first match and the parsed date\<close>

lemma and_then_mem: "(z \<in> set (and_then ms f)) = (\<exists>a r. (a, r) \<in> set ms \<and> z \<in> set (f a r))"
  by (auto simp: and_then_def)

lemma format_regex_matches_mem:
  "((D, M, Y, r) \<in> set (format_regex_matches s)) =
     (\<exists>r2 r4. (D, 46 # r2) \<in> set (re_d s) \<and> (M, 46 # r4) \<in> set (re_m r2)
        \<and> (Y, r) \<in> set (re_Y r4))"
  by (simp add: format_regex_matches_def and_then_mem re_dot_mem) blast

lemma format_regex_matches_sound:
  assumes "(D, M, Y, r) \<in> set (format_regex_matches s)"
  shows "s = D @ 46 # M @ 46 # Y @ r"
    and "\<exists>n. day_text D n" and "\<exists>n. month_text M n" and "\<exists>n. year_text Y n"
proof -
  from assms obtain r2 r4 where d: "(D, 46 # r2) \<in> set (re_d s)"
    and m: "(M, 46 # r4) \<in> set (re_m r2)" and y: "(Y, r) \<in> set (re_Y r4)"
    unfolding format_regex_matches_mem by blast
  note dg = day_group [OF d] and mg = month_group [OF m] and yg = year_group [OF y]
  show "s = D @ 46 # M @ 46 # Y @ r"
    using dg mg yg by simp
  show "\<exists>n. day_text D n" "\<exists>n. month_text M n" "\<exists>n. year_text Y n"
    using dg mg yg by simp_all
qed

lemma format_regex_matches_complete:
  assumes "day_text D d" and "month_text M m" and "year_text Y y"
  shows "(D, M, Y, r) \<in> set (format_regex_matches (D @ 46 # M @ 46 # Y @ r))"
proof -
  have "(D, 46 # M @ 46 # Y @ r) \<in> set (re_d (D @ 46 # M @ 46 # Y @ r))"
    using day_text_props [OF assms(1)] by blast
  moreover have "(M, 46 # Y @ r) \<in> set (re_m (M @ 46 # Y @ r))"
    using month_text_props [OF assms(2)] by blast
  moreover have "(Y, r) \<in> set (re_Y (Y @ r))"
    using year_text_props [OF assms(3)] by blast
  ultimately show ?thesis
    unfolding format_regex_matches_mem by blast
qed

lemma split_at_first:
  "x \<notin> set xs \<Longrightarrow> x \<notin> set xs' \<Longrightarrow> xs @ x # ys = xs' @ x # ys' \<Longrightarrow> xs = xs' \<and> ys = ys'"
proof (induction xs arbitrary: xs')
  case Nil
  then show ?case by (cases xs') auto
next
  case (Cons a xs)
  then show ?case by (cases xs') auto
qed

lemma format_regex_matches_unique:
  assumes "(D, M, Y, r) \<in> set (format_regex_matches s)"
    and "(D', M', Y', r') \<in> set (format_regex_matches s)"
  shows "D = D' \<and> M = M' \<and> Y = Y' \<and> r = r'"
proof -
  note a = format_regex_matches_sound [OF assms(1)]
  note b = format_regex_matches_sound [OF assms(2)]
  have nd: "46 \<notin> set D" "46 \<notin> set D'" "46 \<notin> set M" "46 \<notin> set M'"
    and len: "length Y = 4" "length Y' = 4"
    using a(2-4) b(2-4) day_text_props month_text_props year_text_props by blast+
  have "D @ 46 # (M @ 46 # Y @ r) = D' @ 46 # (M' @ 46 # Y' @ r')"
    using a(1) b(1) by simp
  then have "D = D' \<and> M @ 46 # (Y @ r) = M' @ 46 # (Y' @ r')"
    by (rule split_at_first [OF nd(1,2)])
  then have D: "D = D'" and e: "M @ 46 # (Y @ r) = M' @ 46 # (Y' @ r')"
    by blast+
  from e have "M = M' \<and> Y @ r = Y' @ r'"
    by (rule split_at_first [OF nd(3,4)])
  then have M: "M = M'" and f: "Y @ r = Y' @ r'"
    by blast+
  from f have "Y = Y' \<and> r = r'"
    using len by simp
  with D M show ?thesis by simp
qed

lemma format_regex_matches_first:
  assumes "(D, M, Y, r) \<in> set (format_regex_matches s)"
  shows "\<exists>other. format_regex_matches s = (D, M, Y, r) # other"
proof (cases "format_regex_matches s")
  case Nil
  with assms show ?thesis by simp
next
  case (Cons x other)
  obtain D' M' Y' r' where x: "x = (D', M', Y', r')"
    by (cases x) auto
  then have "(D', M', Y', r') \<in> set (format_regex_matches s)"
    using Cons by simp
  from format_regex_matches_unique [OF assms this] x Cons show ?thesis
    by simp
qed

lemma make_date_valid: "(make_date y m d = Inr dt) = (dt = \<lparr>year = y, month = m, day = d\<rparr> \<and> valid_date dt)"
  by (auto simp: make_date_def valid_date_def)

lemma strptime_complete:
  assumes "valid_date dt" and "day_text D (day dt)" and "month_text M (month dt)"
    and "year_text Y (year dt)"
  shows "strptime (D @ 46 # M @ 46 # Y) = Inr dt"
proof -
  have "(D, M, Y, []) \<in> set (format_regex_matches (D @ 46 # M @ 46 # Y))"
    using format_regex_matches_complete [OF assms(2-4), of "[]"] by simp
  then obtain other where "format_regex_matches (D @ 46 # M @ 46 # Y) = (D, M, Y, []) # other"
    using format_regex_matches_first by blast
  moreover have "py_int D = Inr (day dt)" "py_int M = Inr (month dt)" "py_int Y = Inr (year dt)"
    using day_text_props [OF assms(2)] month_text_props [OF assms(3)]
      year_text_props [OF assms(4)] by blast+
  moreover have "make_date (year dt) (month dt) (day dt) = Inr dt"
    using assms(1) by (simp add: make_date_valid)
  ultimately show ?thesis
    by (simp add: strptime_def)
qed

lemma strptime_sound:
  assumes "strptime s = Inr dt"
  shows "valid_date dt \<and> (\<exists>D M Y. s = D @ 46 # M @ 46 # Y \<and> day_text D (day dt)
           \<and> month_text M (month dt) \<and> year_text Y (year dt))"
proof -
  from assms obtain D M Y other y m d where f: "format_regex_matches s = (D, M, Y, []) # other"
    and p: "py_int Y = Inr y" "py_int M = Inr m" "py_int D = Inr d"
    and mk: "make_date y m d = Inr dt"
    by (auto simp: strptime_def split: list.splits if_splits sum.splits)
  have "(D, M, Y, []) \<in> set (format_regex_matches s)"
    using f by simp
  note g = format_regex_matches_sound [OF this]
  have dt: "dt = \<lparr>year = y, month = m, day = d\<rparr>" and v: "valid_date dt"
    using mk unfolding make_date_valid by blast+
  obtain d' m' y' where t: "day_text D d'" "month_text M m'" "year_text Y y'"
    using g(2-4) by blast
  have "d' = d" "m' = m" "y' = y"
    using day_text_props [OF t(1)] month_text_props [OF t(2)] year_text_props [OF t(3)] p
    by simp_all
  then have "day_text D (day dt)" "month_text M (month dt)" "year_text Y (year dt)"
    using t dt by simp_all
  then show ?thesis
    using g(1) v by auto
qed

lemma py_int_error: "py_int s = Inl e \<Longrightarrow> \<exists>m. e = ValueError m"
  by (auto simp: py_int_def Let_def split: if_splits)

lemma make_date_error: "make_date y m d = Inl e \<Longrightarrow> \<exists>m. e = ValueError m"
  by (auto simp: make_date_def split: if_splits)

lemma strptime_error:
  assumes "strptime s = Inl e"
  shows "\<exists>m. e = ValueError m"
proof (cases "format_regex_matches s")
  case Nil
  with assms show ?thesis by (auto simp: strptime_def)
next
  case (Cons x other)
  obtain D M Y rest where x: "x = (D, M, Y, rest)"
    by (cases x) auto
  show ?thesis
  proof (cases "rest = []")
    case False
    with assms Cons x show ?thesis by (auto simp: strptime_def)
  next
    case True
    then have "(case py_int Y of Inl e \<Rightarrow> Inl e | Inr y \<Rightarrow>
               (case py_int M of Inl e \<Rightarrow> Inl e | Inr m \<Rightarrow>
               (case py_int D of Inl e \<Rightarrow> Inl e | Inr d \<Rightarrow> make_date y m d))) = Inl e"
      using assms Cons x by (simp add: strptime_def)
    then show ?thesis
      using py_int_error [of Y e] py_int_error [of M e] py_int_error [of D e] make_date_error
      by (auto split: sum.splits)
  qed
qed

lemma while_until_first:
  "x \<notin> set xs \<Longrightarrow>
     dropWhile (\<lambda>c. c \<noteq> x) (xs @ x # r) = x # r \<and> takeWhile (\<lambda>c. c \<noteq> x) (xs @ x # r) = xs"
  by (induction xs) auto

lemma date_fields_append:
  assumes "46 \<notin> set D" and "46 \<notin> set M" and "46 \<notin> set Y"
  shows "date_fields (D @ 46 # M @ 46 # Y) = Some (D, M, Y)"
  using assms(3) while_until_first [OF assms(1), of "M @ 46 # Y"] while_until_first [OF assms(2), of Y]
  by (simp add: date_fields_def)

lemma date_fields_Some:
  assumes "date_fields s = Some (D, M, Y)"
  shows "s = D @ 46 # M @ 46 # Y"
proof -
  let ?P = "\<lambda>c::nat. c \<noteq> 46"
  from assms obtain x r where r: "dropWhile ?P s = x # r"
    by (auto simp: date_fields_def split: list.splits)
  from assms r obtain x' where r': "dropWhile ?P r = x' # Y"
    and D: "D = takeWhile ?P s" and M: "M = takeWhile ?P r"
    by (auto simp: date_fields_def split: list.splits if_splits)
  have "x = 46"
    using hd_dropWhile [of ?P s] r by auto
  moreover have "x' = 46"
    using hd_dropWhile [of ?P r] r' by auto
  moreover have "s = takeWhile ?P s @ dropWhile ?P s" "r = takeWhile ?P r @ dropWhile ?P r"
    by simp_all
  ultimately show ?thesis
    using r r' D M by (metis append_Cons)
qed

lemma strptime_iff: "(strptime s = Inr dt) = accepted_text s dt"
proof
  assume "strptime s = Inr dt"
  then obtain D M Y where v: "valid_date dt" and s: "s = D @ 46 # M @ 46 # Y"
    and t: "day_text D (day dt)" "month_text M (month dt)" "year_text Y (year dt)"
    using strptime_sound by blast
  have "date_fields s = Some (D, M, Y)"
    unfolding s using day_text_props [OF t(1)] month_text_props [OF t(2)] year_text_props [OF t(3)]
    by (intro date_fields_append) blast+
  then show "accepted_text s dt"
    using v t by (simp add: accepted_text_def)
next
  assume "accepted_text s dt"
  then obtain D M Y where f: "date_fields s = Some (D, M, Y)" and v: "valid_date dt"
    and t: "day_text D (day dt)" "month_text M (month dt)" "year_text Y (year dt)"
    by (auto simp: accepted_text_def split: option.splits)
  have "s = D @ 46 # M @ 46 # Y"
    using f by (rule date_fields_Some)
  then show "strptime s = Inr dt"
    using strptime_complete [OF v t] by simp
qed

lemma Birthday_iff: "(Birthday s = Inr dt) = accepted_text s dt"
proof -
  have "(Birthday s = Inr dt) = (strptime s = Inr dt)"
    by (auto simp: Birthday_def split: sum.splits error.splits)
  then show ?thesis
    by (simp add: strptime_iff)
qed

lemma Birthday_error:
  "Birthday s = Inl e \<Longrightarrow> e = ValueError ''Invalid date format. Use DD.MM.YYYY''"
  using strptime_error [of s]
  by (auto simp: Birthday_def split: sum.splits error.splits)

subsection \<open>Formatting a date\<close>

lemma digit_char_code: "digit_char n = 48 + n"
  by (simp add: digit_char_def)

lemma div_mod_digit:
  fixes q x :: nat
  assumes "x < k"
  shows "(k * q + x) div k = q" and "(k * q + x) mod k = x"
  using assms by simp_all

lemma dec2_ascii:
  assumes "48 \<le> a" "a \<le> 57" "48 \<le> b" "b \<le> 57"
  shows "dec2 (10 * (a - 48) + (b - 48)) = [a, b]"
proof -
  have "a - 48 < 10" "b - 48 < 10"
    using assms by arith+
  then have "(10 * (a - 48) + (b - 48)) div 10 mod 10 = a - 48"
    and "(10 * (a - 48) + (b - 48)) mod 10 = b - 48"
    by simp_all
  then show ?thesis
    using assms by (simp add: dec2_def digit_char_code)
qed

lemma dec4_ascii:
  assumes "48 \<le> a" "a \<le> 57" "48 \<le> b" "b \<le> 57" "48 \<le> c" "c \<le> 57" "48 \<le> d" "d \<le> 57"
  shows "dec4 (1000 * (a - 48) + 100 * (b - 48) + 10 * (c - 48) + (d - 48)) = [a, b, c, d]"
proof -
  define va vb vc vd where "va = a - 48" and "vb = b - 48" and "vc = c - 48" and "vd = d - 48"
  define n where "n = 1000 * va + 100 * vb + 10 * vc + vd"
  have l: "va < 10" "vb < 10" "vc < 10" "vd < 10"
    using assms unfolding va_def vb_def vc_def vd_def by arith+
  have "n = 1000 * va + (100 * vb + 10 * vc + vd)"
    by (simp add: n_def)
  moreover have "100 * vb + 10 * vc + vd < 1000"
    using l by arith
  ultimately have "n div 1000 = va"
    using div_mod_digit(1) by blast
  then have d1: "n div 1000 mod 10 = va"
    using l by simp
  have "n = 100 * (10 * va + vb) + (10 * vc + vd)"
    by (simp add: n_def)
  moreover have "10 * vc + vd < 100"
    using l by arith
  ultimately have "n div 100 = 10 * va + vb"
    using div_mod_digit(1) by blast
  then have d2: "n div 100 mod 10 = vb"
    using l by simp
  have e: "n = 10 * (10 * (10 * va + vb) + vc) + vd"
    by (simp add: n_def)
  have d4: "n mod 10 = vd"
    unfolding e using l(4) by (rule div_mod_digit(2))
  have "n div 10 = 10 * (10 * va + vb) + vc"
    unfolding e using l(4) by (rule div_mod_digit(1))
  then have d3: "n div 10 mod 10 = vc"
    using l(3) div_mod_digit(2) [of vc 10 "10 * va + vb"] by simp
  have "dec4 n = [48 + va, 48 + vb, 48 + vc, 48 + vd]"
    using d1 d2 d3 d4 by (simp add: dec4_def digit_char_code)
  then show ?thesis
    using assms by (simp add: n_def va_def vb_def vc_def vd_def)
qed

lemma day_text_dec2:
  assumes "1 \<le> n" and "n \<le> 31"
  shows "day_text (dec2 n) n"
proof -
  have lt: "n div 10 mod 10 = n div 10" "n mod 10 < 10"
    using assms by simp_all
  have b: "is_decimal (48 + n mod 10)" "digit_val (48 + n mod 10) = n mod 10"
    using lt(2) by (simp_all add: is_decimal_ascii digit_val_ascii)
  consider "n < 10" | "10 \<le> n" "n < 20" | "20 \<le> n" "n < 30" | "n = 30" | "n = 31"
    using assms by arith
  then show ?thesis
  proof cases
    case 1
    then show ?thesis
      using assms(1) by (simp add: dec2_def digit_char_code in_ustr_small in_ustr_19)
  next
    case 2
    then have "n div 10 = 1" "n = 10 + n mod 10" by arith+
    then show ?thesis
      using b by (simp add: dec2_def digit_char_code in_ustr_small)
  next
    case 3
    then have "n div 10 = 2" "n = 20 + n mod 10" by arith+
    then show ?thesis
      using b by (simp add: dec2_def digit_char_code in_ustr_small)
  next
    case 4
    then show ?thesis
      by (simp add: dec2_def digit_char_code in_ustr_small)
  next
    case 5
    then show ?thesis
      by (simp add: dec2_def digit_char_code in_ustr_small)
  qed
qed

lemma month_text_dec2:
  assumes "1 \<le> n" and "n \<le> 12"
  shows "month_text (dec2 n) n"
proof -
  consider "n < 10" | "n = 10" | "n = 11" | "n = 12"
    using assms by arith
  then show ?thesis
    using assms(1)
    by cases (simp_all add: dec2_def digit_char_code in_ustr_small in_ustr_19)
qed

lemma year_text_dec4:
  assumes "n \<le> 9999"
  shows "year_text (dec4 n) n"
proof -
  define d1 d2 d3 d4 where "d1 = n div 1000 mod 10" and "d2 = n div 100 mod 10"
    and "d3 = n div 10 mod 10" and "d4 = n mod 10"
  have a: "n mod 100 = 10 * (n div 10 mod 10) + n mod 10"
    using mod_mult2_eq [of n 10 10] by simp
  have b: "n mod 1000 = 100 * (n div 100 mod 10) + n mod 100"
    using mod_mult2_eq [of n 100 10] by simp
  have c: "n mod 10000 = 1000 * (n div 1000 mod 10) + n mod 1000"
    using mod_mult2_eq [of n 1000 10] by simp
  have "n mod 10000 = n"
    using assms by simp
  then have n: "n = 1000 * d1 + 100 * d2 + 10 * d3 + d4"
    using a b c unfolding d1_def d2_def d3_def d4_def by arith
  have l: "d1 < 10" "d2 < 10" "d3 < 10" "d4 < 10"
    unfolding d1_def d2_def d3_def d4_def by simp_all
  have d: "is_decimal (48 + k)" "digit_val (48 + k) = k" if "k < 10" for k :: nat
    using that by (simp_all add: is_decimal_ascii digit_val_ascii)
  have "year_text [48 + d1, 48 + d2, 48 + d3, 48 + d4] n"
    using n l by (simp add: d)
  then show ?thesis
    by (simp add: dec4_def digit_char_code d1_def d2_def d3_def d4_def)
qed

lemma days_in_month_le: "days_in_month y m \<le> 31"
  by (simp add: days_in_month_def)

lemma Birthday_strftime:
  assumes "valid_date dt"
  shows "Birthday (strftime Padded dt) = Inr dt"
proof -
  have b: "1 \<le> day dt" "day dt \<le> 31" "1 \<le> month dt" "month dt \<le> 12" "year dt \<le> 9999"
    using assms days_in_month_le [of "year dt" "month dt"] by (simp_all add: valid_date_def)
  have "strptime (dec2 (day dt) @ 46 # dec2 (month dt) @ 46 # dec4 (year dt)) = Inr dt"
    using assms day_text_dec2 [OF b(1,2)] month_text_dec2 [OF b(3,4)] year_text_dec4 [OF b(5)]
    by (rule strptime_complete)
  then have "strptime (strftime Padded dt) = Inr dt"
    by (simp add: strftime_def ustr_def)
  then show ?thesis
    by (simp add: Birthday_def)
qed

lemma ascii_number_2: "ascii_number [a, b] = 10 * (a - 48) + (b - 48)"
  by (simp add: ascii_number_def)

lemma ascii_number_4:
  "ascii_number [a, b, c, d] = 1000 * (a - 48) + 100 * (b - 48) + 10 * (c - 48) + (d - 48)"
  by (simp add: ascii_number_def)

lemma ddmmyyyy_strftime:
  assumes "ddmmyyyy s"
  shows "\<exists>dt. valid_date dt \<and> s = strftime Padded dt"
proof -
  from assms have len: "length s = 10"
    by (simp add: ddmmyyyy_def)
  then obtain a b p c d q e f g h where s: "s = [a, b, p, c, d, q, e, f, g, h]"
    by (auto simp: eval_nat_numeral length_Suc_conv)
  let ?dt = "\<lparr>year = ascii_number [e, f, g, h], month = ascii_number [c, d],
              day = ascii_number [a, b]\<rparr>"
  have dots: "p = 46" "q = 46"
    and dig: "48 \<le> a \<and> a \<le> 57" "48 \<le> b \<and> b \<le> 57" "48 \<le> c \<and> c \<le> 57" "48 \<le> d \<and> d \<le> 57"
      "48 \<le> e \<and> e \<le> 57" "48 \<le> f \<and> f \<le> 57" "48 \<le> g \<and> g \<le> 57" "48 \<le> h \<and> h \<le> 57"
    and v: "valid_date ?dt"
    using assms unfolding ddmmyyyy_def s by (simp_all add: ascii_digit_code)
  have "dec2 (ascii_number [a, b]) = [a, b]"
    unfolding ascii_number_2 using dig by (intro dec2_ascii) simp_all
  moreover have "dec2 (ascii_number [c, d]) = [c, d]"
    unfolding ascii_number_2 using dig by (intro dec2_ascii) simp_all
  moreover have "dec4 (ascii_number [e, f, g, h]) = [e, f, g, h]"
    unfolding ascii_number_4 using dig by (intro dec4_ascii) simp_all
  ultimately have "s = strftime Padded ?dt"
    using dots by (simp add: strftime_def s ustr_def)
  with v show ?thesis by blast
qed

lemma decimal_lt_10: "n < 10 \<Longrightarrow> decimal n = [digit_char n]"
  by (subst decimal.simps) simp

lemma decimal_ge_10: "10 \<le> n \<Longrightarrow> decimal n = decimal (n div 10) @ [digit_char (n mod 10)]"
  by (subst decimal.simps) simp

lemma decimal_four:
  assumes "1000 \<le> n" and "n \<le> 9999"
  shows "decimal n = dec4 n"
proof -
  define q1 q2 q3 where "q1 = n div 10" and "q2 = q1 div 10" and "q3 = q2 div 10"
  have a: "10 \<le> n" "10 \<le> q1" "10 \<le> q2" "q3 < 10"
    using assms unfolding q1_def q2_def q3_def by arith+
  have "decimal n = decimal q1 @ [digit_char (n mod 10)]"
    using a(1) unfolding q1_def by (rule decimal_ge_10)
  also have "decimal q1 = decimal q2 @ [digit_char (q1 mod 10)]"
    using a(2) unfolding q2_def by (rule decimal_ge_10)
  also have "decimal q2 = decimal q3 @ [digit_char (q2 mod 10)]"
    using a(3) unfolding q3_def by (rule decimal_ge_10)
  also have "decimal q3 = [digit_char q3]"
    using a(4) by (rule decimal_lt_10)
  finally have d: "decimal n = [digit_char q3, digit_char (q2 mod 10), digit_char (q1 mod 10),
      digit_char (n mod 10)]"
    by simp
  have "q2 = n div 100" "q3 = n div 1000"
    unfolding q1_def q2_def q3_def by (simp_all add: div_mult2_eq)
  moreover have "n div 1000 mod 10 = n div 1000"
    using assms(2) by simp
  ultimately show ?thesis
    using d by (simp add: dec4_def q1_def)
qed

lemma decimal_short:
  assumes "n < 1000"
  shows "length (decimal n) < 4"
proof -
  consider "n < 10" | "10 \<le> n" "n div 10 < 10" | "10 \<le> n" "10 \<le> n div 10" "n div 10 div 10 < 10"
    using assms by arith
  then show ?thesis
    by cases (simp_all add: decimal_ge_10 decimal_lt_10)
qed

lemmas date_eval =
  ddmmyyyy_def ascii_digit_def ascii_number_def accepted_text_def date_fields_def
  valid_date_def days_in_month_def is_leap_def strftime_def dec2_def dec4_def digit_char_def

text \<open>
  C7 (as the code has it). \<^verbatim>\<open>Birthday(s)\<close> succeeds with the date \<open>dt\<close> exactly when
  \<open>s\<close> has exactly two dots, \<open>dt\<close> is a valid calendar date (year 1 to 9999), and the
  three fields of \<open>s\<close> write its day, month and year: the day as \<^verbatim>\<open>1\<close> to \<^verbatim>\<open>9\<close>,
  with or without a zero or a blank before it, or as \<^verbatim>\<open>10\<close> to \<^verbatim>\<open>31\<close>; the month as
  \<^verbatim>\<open>1\<close> to \<^verbatim>\<open>9\<close>, with or without a zero before it, or as \<^verbatim>\<open>10\<close> to \<^verbatim>\<open>12\<close>;
  the year with exactly four digits. The digits are \<^verbatim>\<open>0\<close> to \<^verbatim>\<open>9\<close>, except that the
  four digits of the year and the second digit of a day from 10 to 29 may be decimal digits
  of any script. Every other string, impossible calendar dates included, fails with
  InvalidFormat. Every valid date in the two-digit, two-digit, four-digit shape with the
  digits \<^verbatim>\<open>0\<close> to \<^verbatim>\<open>9\<close> is accepted.
\<close>

theorem Birthday_accepted_texts:
  "(Birthday s = Inr dt) = accepted_text s dt
   \<and> ((\<exists>dt'. Birthday s = Inr dt')
        \<or> (\<exists>e. Birthday s = Inl e \<and> error_kind e = Some InvalidFormat))
   \<and> (ddmmyyyy s \<longrightarrow> (\<exists>dt'. Birthday s = Inr dt'))"
proof (intro conjI impI)
  show "(Birthday s = Inr dt) = accepted_text s dt"
    by (rule Birthday_iff)
next
  show "(\<exists>dt'. Birthday s = Inr dt')
        \<or> (\<exists>e. Birthday s = Inl e \<and> error_kind e = Some InvalidFormat)"
  proof (cases "Birthday s")
    case (Inl e)
    then have "e = ValueError ''Invalid date format. Use DD.MM.YYYY''"
      by (rule Birthday_error)
    then have "error_kind e = Some InvalidFormat"
      by (simp add: error_kind_def)
    with Inl show ?thesis by blast
  next
    case (Inr d)
    then show ?thesis by blast
  qed
next
  assume "ddmmyyyy s"
  then obtain d where "valid_date d" "s = strftime Padded d"
    using ddmmyyyy_strftime by blast
  then have "Birthday s = Inr d"
    using Birthday_strftime by simp
  then show "\<exists>dt'. Birthday s = Inr dt'" by blast
qed

theorem Birthday_accepted_texts_witness:
  "ddmmyyyy (ustr ''05.03.1990'') \<and> (\<exists>dt'. Birthday (ustr ''05.03.1990'') = Inr dt')
   \<and> accepted_text (ustr ''5.3.1990'') \<lparr>year = 1990, month = 3, day = 5\<rparr>
   \<and> Birthday (ustr ''5.3.1990'') = Inr \<lparr>year = 1990, month = 3, day = 5\<rparr>
   \<and> accepted_text ([49, 1637] @ ustr ''.03.'' @ [1633, 1641, 1641, 1632])
        \<lparr>year = 1990, month = 3, day = 15\<rparr>
   \<and> Birthday ([49, 1637] @ ustr ''.03.'' @ [1633, 1641, 1641, 1632])
        = Inr \<lparr>year = 1990, month = 3, day = 15\<rparr>
   \<and> \<not> accepted_text ([1632, 1637] @ ustr ''.03.1990'') \<lparr>year = 1990, month = 3, day = 5\<rparr>
   \<and> Birthday ([1632, 1637] @ ustr ''.03.1990'') \<noteq> Inr \<lparr>year = 1990, month = 3, day = 5\<rparr>"
proof -
  have a: "ddmmyyyy (ustr ''05.03.1990'')"
    by (simp add: date_eval ustr_def)
  have b: "accepted_text (ustr ''5.3.1990'') \<lparr>year = 1990, month = 3, day = 5\<rparr>"
    by (simp add: date_eval ustr_def is_decimal_def digit_val_def decimal_blocks_def)
  have c: "accepted_text ([49, 1637] @ ustr ''.03.'' @ [1633, 1641, 1641, 1632])
        \<lparr>year = 1990, month = 3, day = 15\<rparr>"
    by (simp add: date_eval ustr_def is_decimal_def digit_val_def decimal_blocks_def)
  have d: "\<not> accepted_text ([1632, 1637] @ ustr ''.03.1990'') \<lparr>year = 1990, month = 3, day = 5\<rparr>"
    by (simp add: date_eval ustr_def)
  show ?thesis
    using a b c d Birthday_accepted_texts [of "ustr ''05.03.1990''" "\<lparr>year = 1990, month = 3, day = 5\<rparr>"]
      Birthday_accepted_texts [of "ustr ''5.3.1990''" "\<lparr>year = 1990, month = 3, day = 5\<rparr>"]
      Birthday_accepted_texts [of "[49, 1637] @ ustr ''.03.'' @ [1633, 1641, 1641, 1632]"
        "\<lparr>year = 1990, month = 3, day = 15\<rparr>"]
      Birthday_accepted_texts [of "[1632, 1637] @ ustr ''.03.1990''" "\<lparr>year = 1990, month = 3, day = 5\<rparr>"]
    by blast
qed

text \<open>
  The string \<^verbatim>\<open>5.3.1990\<close> is not in the two-digit, two-digit, four-digit shape, and
  \<^verbatim>\<open>Birthday\<close> accepts it as 5 March 1990; so it does \<^verbatim>\<open>05.03.\<close> followed by the
  year 1990 in Arabic-Indic digits.
\<close>

theorem Birthday_shape_counterexample:
  "\<not> ddmmyyyy (ustr ''5.3.1990'')
   \<and> Birthday (ustr ''5.3.1990'') = Inr \<lparr>year = 1990, month = 3, day = 5\<rparr>
   \<and> \<not> ddmmyyyy (ustr ''05.03.'' @ [1633, 1641, 1641, 1632])
   \<and> Birthday (ustr ''05.03.'' @ [1633, 1641, 1641, 1632]) = Inr \<lparr>year = 1990, month = 3, day = 5\<rparr>"
proof -
  have "\<not> ddmmyyyy (ustr ''5.3.1990'')" "\<not> ddmmyyyy (ustr ''05.03.'' @ [1633, 1641, 1641, 1632])"
    by (simp_all add: date_eval ustr_def)
  moreover have "Birthday (ustr ''5.3.1990'') = Inr \<lparr>year = 1990, month = 3, day = 5\<rparr>"
    by (simp add: text_eval)
  moreover have "Birthday (ustr ''05.03.'' @ [1633, 1641, 1641, 1632])
      = Inr \<lparr>year = 1990, month = 3, day = 5\<rparr>"
    by (simp add: text_eval)
  ultimately show ?thesis
    by blast
qed

text \<open>
  C8 (as the code has it). For every string \<open>s\<close> that is a valid calendar date written
  as dd.mm.yyyy, \<^verbatim>\<open>Birthday(s)\<close> succeeds. Formatting the stored date with
  \<^verbatim>\<open>strftime("%d.%m.%Y")\<close> gives \<open>s\<close> back where the platform pads the year to four
  digits, and on every platform when the year is 1000 or later; where the platform prints
  the year as a plain number, a year below 1000 comes back without its leading zeros.
\<close>

theorem Birthday_strftime_round_trip:
  "ddmmyyyy s \<longrightarrow>
     (\<exists>dt. Birthday s = Inr dt \<and> strftime Padded dt = s
        \<and> (1000 \<le> year dt \<longrightarrow> strftime Unpadded dt = s)
        \<and> (year dt < 1000 \<longrightarrow> strftime Unpadded dt \<noteq> s))"
proof
  assume "ddmmyyyy s"
  then obtain d where d: "valid_date d" "s = strftime Padded d"
    using ddmmyyyy_strftime by blast
  then have b: "Birthday s = Inr d"
    using Birthday_strftime by simp
  have y: "year d \<le> 9999"
    using d(1) by (simp add: valid_date_def)
  have u1: "1000 \<le> year d \<longrightarrow> strftime Unpadded d = s"
    using y d(2) by (simp add: strftime_def decimal_four)
  have u2: "year d < 1000 \<longrightarrow> strftime Unpadded d \<noteq> s"
  proof
    assume "year d < 1000"
    then have "length (strftime Unpadded d) < length (strftime Padded d)"
      using decimal_short [of "year d"] by (simp add: strftime_def dec4_def)
    then show "strftime Unpadded d \<noteq> s"
      using d(2) by auto
  qed
  have p: "strftime Padded d = s"
    using d(2) by simp
  from b p u1 u2 show "\<exists>dt. Birthday s = Inr dt \<and> strftime Padded dt = s
        \<and> (1000 \<le> year dt \<longrightarrow> strftime Unpadded dt = s)
        \<and> (year dt < 1000 \<longrightarrow> strftime Unpadded dt \<noteq> s)"
    by blast
qed

theorem Birthday_strftime_round_trip_witness:
  "ddmmyyyy (ustr ''29.02.2000'')
   \<and> (\<exists>dt. Birthday (ustr ''29.02.2000'') = Inr dt \<and> strftime Padded dt = ustr ''29.02.2000''
        \<and> (1000 \<le> year dt \<longrightarrow> strftime Unpadded dt = ustr ''29.02.2000'')
        \<and> (year dt < 1000 \<longrightarrow> strftime Unpadded dt \<noteq> ustr ''29.02.2000''))
   \<and> Birthday (ustr ''29.02.2000'') = Inr \<lparr>year = 2000, month = 2, day = 29\<rparr>
   \<and> strftime Unpadded \<lparr>year = 2000, month = 2, day = 29\<rparr> = ustr ''29.02.2000''"
proof -
  have a: "ddmmyyyy (ustr ''29.02.2000'')"
    by (simp add: date_eval ustr_def)
  have b: "Birthday (ustr ''29.02.2000'') = Inr \<lparr>year = 2000, month = 2, day = 29\<rparr>"
    by (simp add: text_eval)
  have c: "strftime Unpadded \<lparr>year = 2000, month = 2, day = 29\<rparr> = ustr ''29.02.2000''"
    by (simp add: date_eval ustr_def decimal.simps)
  show ?thesis
    using a b c Birthday_strftime_round_trip [of "ustr ''29.02.2000''"] by blast
qed

text \<open>
  With the \<^verbatim>\<open>strftime\<close> of glibc the valid text \<^verbatim>\<open>05.03.0999\<close> parses to 5 March 999
  and is formatted back as \<^verbatim>\<open>05.03.999\<close>.
\<close>

theorem strftime_year_counterexample:
  "ddmmyyyy (ustr ''05.03.0999'')
   \<and> Birthday (ustr ''05.03.0999'') = Inr \<lparr>year = 999, month = 3, day = 5\<rparr>
   \<and> strftime Unpadded \<lparr>year = 999, month = 3, day = 5\<rparr> = ustr ''05.03.999''
   \<and> ustr ''05.03.999'' \<noteq> ustr ''05.03.0999''"
proof -
  have "ddmmyyyy (ustr ''05.03.0999'')"
    by (simp add: date_eval ustr_def)
  moreover have "Birthday (ustr ''05.03.0999'') = Inr \<lparr>year = 999, month = 3, day = 5\<rparr>"
    by (simp add: text_eval)
  moreover have "strftime Unpadded \<lparr>year = 999, month = 3, day = 5\<rparr> = ustr ''05.03.999''"
    by (simp add: date_eval ustr_def decimal.simps)
  moreover have "ustr ''05.03.999'' \<noteq> ustr ''05.03.0999''"
    by (simp add: ustr_def)
  ultimately show ?thesis
    by blast
qed

end
